(* ===== verification/Prelude.thy ===== *)
theory Prelude
  imports Main "HOL-Library.Word"
begin

text \<open>
  Shared vocabulary of the development: the error values that stand for Rust panics,
  the string helpers that the Rust standard library provides to the sources
  (\<open>Vec::join\<close>, \<open>str::replace\<close>, decimal formatting and parsing of integers), the
  character classes the reference grammar uses, and the lemma collections that the
  component theories extend.
\<close>

named_theorems fmt_simps "equations that evaluate formatting of references"
named_theorems split_simps "equations that evaluate the comma splitter"

section \<open>Panics as values\<close>

text \<open>
  A Rust \<open>panic!\<close>, or an \<open>unwrap()\<close> on \<open>None\<close>/\<open>Err\<close>, aborts the whole read.
  The model returns it as the left value of a sum, with the message of the source.
\<close>

datatype panic = Panic string

type_synonym 'a outcome = "panic + 'a"

section \<open>Strings\<close>

abbreviation apos :: char where "apos \<equiv> CHR 0x27"

text \<open>\<open>Vec<String>::join(sep)\<close>.\<close>

fun join :: "string \<Rightarrow> string list \<Rightarrow> string" where
  "join sep [] = []"
| "join sep [x] = x"
| "join sep (x # y # zs) = x @ sep @ join sep (y # zs)"

text \<open>\<open>str::replace(\"''\", \"'\")\<close>: non-overlapping, left to right.\<close>

fun unquote_pairs :: "string \<Rightarrow> string" where
  "unquote_pairs [] = []"
| "unquote_pairs (c # d # cs) =
     (if c = apos \<and> d = apos then apos # unquote_pairs cs
      else c # unquote_pairs (d # cs))"
| "unquote_pairs [c] = [c]"

text \<open>Doubling every apostrophe: the inverse escaping used when a sheet name is quoted.\<close>

definition double_quotes :: "string \<Rightarrow> string" where
  "double_quotes s = concat (map (\<lambda>c. if c = apos then [apos, apos] else [c]) s)"

section \<open>Character classes\<close>

definition is_upper :: "char \<Rightarrow> bool" where
  "is_upper c \<longleftrightarrow> (let k = (of_char c :: nat) in 65 \<le> k \<and> k \<le> 90)"

definition is_digit :: "char \<Rightarrow> bool" where
  "is_digit c \<longleftrightarrow> (let k = (of_char c :: nat) in 48 \<le> k \<and> k \<le> 57)"

definition is_word_char :: "char \<Rightarrow> bool" where
  "is_word_char c \<longleftrightarrow> is_upper c \<or> is_digit c \<or> c = CHR ''_'' \<or>
     (let k = (of_char c :: nat) in 97 \<le> k \<and> k \<le> 122)"

section \<open>Decimal numerals\<close>

text \<open>\<open>u32::to_string\<close> and \<open>str::parse::<u32>\<close> on digit strings, over \<open>nat\<close>.\<close>

fun show_nat :: "nat \<Rightarrow> string" where
  "show_nat n =
     (if n < 10 then [char_of (48 + n)] else show_nat (n div 10) @ [char_of (48 + n mod 10)])"

declare show_nat.simps [simp del]

definition digit_val :: "char \<Rightarrow> nat" where
  "digit_val c = (of_char c :: nat) - 48"

definition parse_nat :: "string \<Rightarrow> nat" where
  "parse_nat s = foldl (\<lambda>acc c. 10 * acc + digit_val c) 0 s"

section \<open>Generic lemmas\<close>

lemma join_append_single [simp]:
  "xs \<noteq> [] \<Longrightarrow> join sep (xs @ [y]) = join sep xs @ sep @ y"
  by (induction sep xs rule: join.induct) auto

lemma join_Cons: "xs \<noteq> [] \<Longrightarrow> join sep (x # xs) = x @ sep @ join sep xs"
  by (cases xs) auto

lemma double_quotes_simps [simp]:
  "double_quotes [] = []"
  "double_quotes (c # cs) = (if c = apos then [apos, apos] else [c]) @ double_quotes cs"
  "double_quotes (xs @ ys) = double_quotes xs @ double_quotes ys"
  by (simp_all add: double_quotes_def)

lemma unquote_pairs_Cons_other [simp]:
  "c \<noteq> apos \<Longrightarrow> unquote_pairs (c # cs) = c # unquote_pairs cs"
  by (cases cs) auto

lemma unquote_pairs_double_append:
  "unquote_pairs (double_quotes n @ ys) = n @ unquote_pairs ys"
  by (induction n) auto

lemma unquote_pairs_no_quote [simp]:
  "apos \<notin> set s \<Longrightarrow> unquote_pairs s = s"
  by (induction s rule: unquote_pairs.induct) auto

lemma digit_char [simp]: "(d::nat) < 10 \<Longrightarrow> is_digit (char_of (48 + d))"
  by (simp add: is_digit_def)

lemma digit_val_char [simp]: "(d::nat) < 10 \<Longrightarrow> digit_val (char_of (48 + d)) = d"
  by (simp add: digit_val_def)

lemma parse_nat_snoc [simp]: "parse_nat (s @ [c]) = 10 * parse_nat s + digit_val c"
  by (simp add: parse_nat_def)

lemma parse_nat_show_nat [simp]: "parse_nat (show_nat n) = n"
proof (induction n rule: show_nat.induct)
  case (1 n)
  show ?case
  proof (cases "n < 10")
    case True
    then show ?thesis by (simp add: show_nat.simps parse_nat_def)
  next
    case False
    with "1.IH" show ?thesis by (simp add: show_nat.simps[of n])
  qed
qed

lemma show_nat_digits: "list_all is_digit (show_nat n)"
  by (induction n rule: show_nat.induct) (auto simp: show_nat.simps)

lemma show_nat_not_nil [simp]: "show_nat n \<noteq> []"
  by (simp add: show_nat.simps)

lemma is_digit_not_upper: "is_digit c \<Longrightarrow> \<not> is_upper c"
  by (simp add: is_digit_def is_upper_def Let_def)

lemma show_nat_no_upper: "\<not> is_upper c \<or> c \<notin> set (show_nat n)"
  using show_nat_digits[of n] by (auto simp: list_all_iff dest: is_digit_not_upper)


lemma map_filter_Some_map:
  "(\<And>x. x \<in> set xs \<Longrightarrow> f x = Some (g x)) \<Longrightarrow> List.map_filter f xs = map g xs"
  by (induction xs) (simp_all add: List.map_filter_simps)

lemma map_filter_if_None:
  "(\<And>x. x \<in> set xs \<Longrightarrow> f x = (if P x then None else Some (g x))) \<Longrightarrow>
   List.map_filter f xs = map g (filter (\<lambda>x. \<not> P x) xs)"
  by (induction xs) (simp_all add: List.map_filter_simps)

lemma digit_bounds: "is_digit c \<Longrightarrow> 48 \<le> (of_char c :: nat) \<and> (of_char c :: nat) \<le> 57"
  by (simp add: is_digit_def Let_def)

lemma digit_val_lt: assumes "is_digit c" shows "digit_val c < 10"
  using digit_bounds[OF assms] unfolding digit_val_def by arith

lemma digit_val_char_of: "is_digit c \<Longrightarrow> char_of (48 + digit_val c) = c"
proof -
  assume "is_digit c"
  then have "48 + digit_val c = (of_char c :: nat)" using digit_bounds[of c] by (simp add: digit_val_def)
  then show ?thesis by simp
qed

lemma digit_val_pos: "is_digit c \<Longrightarrow> c \<noteq> CHR ''0'' \<Longrightarrow> 0 < digit_val c"
proof -
  assume d: "is_digit c" and nz: "c \<noteq> CHR ''0''"
  have "(of_char c :: nat) \<noteq> 48"
  proof
    assume "(of_char c :: nat) = 48"
    then have "(of_char c :: nat) = of_char (CHR ''0'')" by simp
    then have "c = CHR ''0''" by (simp only: of_char_eq_iff)
    with nz show False by simp
  qed
  with digit_bounds[OF d] show ?thesis by (simp add: digit_val_def)
qed

lemma show_nat_parse_nat:
  "s \<noteq> [] \<Longrightarrow> list_all is_digit s \<Longrightarrow> hd s \<noteq> CHR ''0'' \<Longrightarrow>
   0 < parse_nat s \<and> show_nat (parse_nat s) = s"
proof (induction s rule: rev_induct)
  case Nil then show ?case by simp
next
  case (snoc d s)
  have dd: "is_digit d" "digit_val d < 10" using snoc.prems digit_val_lt by auto
  show ?case
  proof (cases "s = []")
    case True
    then have "d \<noteq> CHR ''0''" using snoc.prems by simp
    with dd True show ?thesis
      by (simp add: parse_nat_def digit_val_pos show_nat.simps digit_val_char_of)
  next
    case False
    then have IH: "0 < parse_nat s" "show_nat (parse_nat s) = s" using snoc by auto
    let ?n = "10 * parse_nat s + digit_val d"
    have big: "\<not> ?n < 10" using IH(1) by simp
    have q: "?n div 10 = parse_nat s" and r: "?n mod 10 = digit_val d" using dd by simp_all
    have "show_nat ?n = show_nat (?n div 10) @ [char_of (48 + ?n mod 10)]"
      using big by (subst show_nat.simps) simp
    also have "\<dots> = s @ [d]" using q r IH(2) dd(1) by (simp add: digit_val_char_of)
    finally show ?thesis using IH(1) by simp
  qed
qed

lemma list_all_ex_map:
  "list_all (\<lambda>x. \<exists>y. P y \<and> f y = x) xs \<Longrightarrow> \<exists>ys. list_all P ys \<and> map f ys = xs"
proof (induction xs)
  case Nil
  then show ?case by simp
next
  case (Cons x xs)
  then obtain y ys where "P y" "f y = x" "list_all P ys" "map f ys = xs" by auto
  then show ?case by (intro exI[of _ "y # ys"]) simp
qed

end
