(* ===== verification/TypedValue.thy ===== *)
theory TypedValue
  imports Prelude
begin

text \<open>
  The optional-with-default attribute values of the object model (\<open>StringValue\<close>,
  \<open>UInt32Value\<close>, \<open>BooleanValue\<close> of \<open>structs/\<close>, which are not among the sources
  and are modelled from the specification, section 4.3). A value is either unset, meaning
  "omit on write, read as the default", or set. Setting from raw attribute text parses
  it; a failed parse is a recoverable \<open>AttributeParseError\<close> that leaves the value as it
  was.
\<close>

datatype 'a typed_value = Unset | Value 'a

datatype parse_error = AttributeParseError string

primrec has_value :: "'a typed_value \<Rightarrow> bool" where
  "has_value Unset = False"
| "has_value (Value _) = True"

primrec get_value_or :: "'a \<Rightarrow> 'a typed_value \<Rightarrow> 'a" where
  "get_value_or d Unset = d"
| "get_value_or d (Value v) = v"

definition set_value :: "'a \<Rightarrow> 'a typed_value \<Rightarrow> 'a typed_value" where
  "set_value x v = Value x"

text \<open>\<open>set_from_raw\<close>: the type's parser decides; an error leaves the value alone.\<close>

definition set_from_raw ::
  "(string \<Rightarrow> 'a option) \<Rightarrow> string \<Rightarrow> 'a typed_value \<Rightarrow> parse_error + 'a typed_value" where
  "set_from_raw parse s v = (case parse s of None \<Rightarrow> Inl (AttributeParseError s) | Some x \<Rightarrow> Inr (Value x))"

text \<open>The binder's use of it: the error is dropped and the field keeps its value.\<close>

definition set_value_string ::
  "(string \<Rightarrow> 'a option) \<Rightarrow> string \<Rightarrow> 'a typed_value \<Rightarrow> 'a typed_value" where
  "set_value_string parse s v = (case set_from_raw parse s v of Inl _ \<Rightarrow> v | Inr v' \<Rightarrow> v')"

section \<open>StringValue\<close>

type_synonym string_value = "string typed_value"

definition get_value_str :: "string_value \<Rightarrow> string" where
  "get_value_str v = get_value_or [] v"

section \<open>UInt32Value\<close>

type_synonym u32 = "32 word"
type_synonym uint32_value = "u32 typed_value"

definition parse_u32 :: "string \<Rightarrow> u32 option" where
  "parse_u32 s =
     (if s \<noteq> [] \<and> list_all is_digit s \<and> parse_nat s < 2 ^ 32 then Some (word_of_nat (parse_nat s))
      else None)"

definition u32_to_string :: "u32 \<Rightarrow> string" where
  "u32_to_string w = show_nat (unat w)"

definition get_value_u32 :: "uint32_value \<Rightarrow> u32" where
  "get_value_u32 v = get_value_or 0 v"

definition get_value_string_u32 :: "uint32_value \<Rightarrow> string" where
  "get_value_string_u32 v = u32_to_string (get_value_u32 v)"

section \<open>BooleanValue\<close>

type_synonym boolean_value = "bool typed_value"

definition parse_bool :: "string \<Rightarrow> bool option" where
  "parse_bool s =
     (if s = ''1'' \<or> s = ''true'' then Some True
      else if s = ''0'' \<or> s = ''false'' then Some False else None)"

definition get_value_bool :: "boolean_value \<Rightarrow> bool" where
  "get_value_bool v = get_value_or False v"

definition get_value_string_bool :: "boolean_value \<Rightarrow> string" where
  "get_value_string_bool v = (if get_value_bool v then ''1'' else ''0'')"

section \<open>Lemmas\<close>

lemma set_value_string_ok [simp]:
  "parse s = Some x \<Longrightarrow> set_value_string parse s v = Value x"
  by (simp add: set_value_string_def set_from_raw_def)

lemma set_value_string_err [simp]:
  "parse s = None \<Longrightarrow> set_value_string parse s v = v"
  by (simp add: set_value_string_def set_from_raw_def)

lemma has_value_set_value [simp]: "has_value (set_value x v)" and
  get_value_or_set_value [simp]: "get_value_or d (set_value x v) = x"
  by (simp_all add: set_value_def)

lemma parse_u32_to_string [simp]: "parse_u32 (u32_to_string w) = Some w"
proof -
  have "unat w < 2 ^ 32" using unsigned_less[of w] by simp
  then show ?thesis
    by (simp add: parse_u32_def u32_to_string_def show_nat_digits)
qed

lemma parse_u32_bound: "parse_u32 s = Some w \<Longrightarrow> unat w = parse_nat s"
  by (auto simp: parse_u32_def unat_of_nat split: if_splits)

lemma parse_bool_string [simp]: "parse_bool (get_value_string_bool v) = Some (get_value_bool v)"
  by (simp add: parse_bool_def get_value_string_bool_def)

text \<open>The decimal text of a u32 has between 1 and 10 characters: u32 values stay below
  2^32 < 10^10.\<close>

end
