(* ===== verification/Address.thy ===== *)
theory Address
  imports Prelude
begin

text \<open>
  The cell and range reference model (\<open>structs::Address\<close>, \<open>structs::Range\<close>,
  \<open>helper::address::is_address\<close> and the coordinate helpers of the crate). These are not
  among the sources and are modelled from the specification (sections 3, 4.1, 4.2 and the
  reference grammar of section 6): a coordinate is a column and a row number with an
  absolute flag each, a range is a start corner and an optional end corner, an address
  is a range with a sheet name (empty when unqualified). The theory gives the canonical
  printer, the parser that \<open>Address::set_address\<close> applies, the recogniser
  \<open>is_address\<close> of the grammar, and the per-coordinate structural adjustment rules.
\<close>

section \<open>Data\<close>

record coordinate =
  col_num :: nat
  col_lock :: bool
  row_num :: nat
  row_lock :: bool

record cell_range =
  coordinate_start :: coordinate
  coordinate_end :: "coordinate option"

record address =
  sheet_name :: string
  addr_range :: cell_range

definition coordinate_default :: coordinate where
  "coordinate_default = \<lparr>col_num = 0, col_lock = False, row_num = 0, row_lock = False\<rparr>"

definition address_default :: address where
  "address_default =
     \<lparr>sheet_name = [], addr_range = \<lparr>coordinate_start = coordinate_default, coordinate_end = None\<rparr>\<rparr>"

section \<open>Column letters\<close>

text \<open>Bijective base 26: 1 is A, 26 is Z, 27 is AA.\<close>

fun col_letters :: "nat \<Rightarrow> string" where
  "col_letters n =
     (if n = 0 then [] else col_letters ((n - 1) div 26) @ [char_of (65 + (n - 1) mod 26)])"

declare col_letters.simps [simp del]

definition letters_col :: "string \<Rightarrow> nat" where
  "letters_col s = foldl (\<lambda>acc c. 26 * acc + ((of_char c :: nat) - 64)) 0 s"

section \<open>Printing\<close>

definition dollar :: "bool \<Rightarrow> string" where
  "dollar b = (if b then ''$'' else [])"

definition coordinate_str :: "coordinate \<Rightarrow> string" where
  "coordinate_str c =
     dollar (col_lock c) @ col_letters (col_num c) @ dollar (row_lock c) @ show_nat (row_num c)"

definition range_str :: "cell_range \<Rightarrow> string" where
  "range_str r =
     coordinate_str (coordinate_start r) @
     (case coordinate_end r of None \<Rightarrow> [] | Some e \<Rightarrow> '':'' @ coordinate_str e)"

text \<open>A sheet name is quoted when it has a character outside \<open>[A-Za-z0-9_]\<close>.\<close>

definition sheet_prefix :: "string \<Rightarrow> string" where
  "sheet_prefix n =
     (if n = [] then []
      else if list_all is_word_char n then n @ ''!''
      else [apos] @ double_quotes n @ [apos] @ ''!'')"

definition get_address_ptn2 :: "address \<Rightarrow> string" where
  "get_address_ptn2 a = sheet_prefix (sheet_name a) @ range_str (addr_range a)"

section \<open>Parsing\<close>

definition take_dollar :: "string \<Rightarrow> bool \<times> string" where
  "take_dollar s = (if s \<noteq> [] \<and> hd s = CHR ''$'' then (True, tl s) else (False, s))"

definition parse_coordinate :: "string \<Rightarrow> (coordinate \<times> string) option" where
  "parse_coordinate s =
     (let (cl, s1) = take_dollar s;
          ls = takeWhile is_upper s1; s2 = dropWhile is_upper s1;
          (rl, s3) = take_dollar s2;
          ds = takeWhile is_digit s3; s4 = dropWhile is_digit s3
      in if ls = [] \<or> ds = [] then None
         else Some (\<lparr>col_num = letters_col ls, col_lock = cl, row_num = parse_nat ds, row_lock = rl\<rparr>, s4))"

definition parse_range :: "string \<Rightarrow> cell_range option" where
  "parse_range s =
     (case parse_coordinate s of
        None \<Rightarrow> None
      | Some (c, rest) \<Rightarrow>
          if rest = [] then Some \<lparr>coordinate_start = c, coordinate_end = None\<rparr>
          else if hd rest = CHR '':'' then
            (case parse_coordinate (tl rest) of
               Some (e, []) \<Rightarrow> Some \<lparr>coordinate_start = c, coordinate_end = Some e\<rparr>
             | _ \<Rightarrow> None)
          else None)"

text \<open>The sheet part ends at the last \<open>!\<close>: a quoted sheet name may contain one.\<close>

definition split_sheet :: "string \<Rightarrow> (string \<times> string) option" where
  "split_sheet s =
     (let r = rev s; rp = rev (takeWhile (\<lambda>c. c \<noteq> CHR ''!'') r);
          pre = rev (dropWhile (\<lambda>c. c \<noteq> CHR ''!'') r)
      in if pre = [] then None else Some (butlast pre, rp))"

definition strip_quotes :: "string \<Rightarrow> string" where
  "strip_quotes q =
     (if 2 \<le> length q \<and> hd q = apos \<and> last q = apos then butlast (tl q) else q)"

text \<open>\<open>Address::set_address\<close>: a sheet part replaces the sheet name, a parsable range
  part replaces the range.\<close>

definition address_set_address :: "string \<Rightarrow> address \<Rightarrow> address" where
  "address_set_address s a =
     (let (sh, rp) = (case split_sheet s of None \<Rightarrow> ([], s) | Some p \<Rightarrow> p);
          n = strip_quotes sh
      in a\<lparr>sheet_name := (if n = [] then sheet_name a else n),
           addr_range := (case parse_range rp of None \<Rightarrow> addr_range a | Some r \<Rightarrow> r)\<rparr>)"

text \<open>The body of a quoted sheet name: apostrophes come in pairs.\<close>

fun quoted_body :: "string \<Rightarrow> bool" where
  "quoted_body [] = True"
| "quoted_body [c] = (c \<noteq> apos)"
| "quoted_body (c # d # cs) = (if c = apos then d = apos \<and> quoted_body cs else quoted_body (d # cs))"

definition is_sheet_token :: "string \<Rightarrow> bool" where
  "is_sheet_token sh \<longleftrightarrow>
     (sh \<noteq> [] \<and> list_all is_word_char sh) \<or>
     (3 \<le> length sh \<and> hd sh = apos \<and> last sh = apos \<and> quoted_body (butlast (tl sh)))"

text \<open>\<open>is_address\<close>: the token matches \<open>[sheet!][$]COL[$]ROW[:[$]COL[$]ROW]\<close>.\<close>

definition is_address :: "string \<Rightarrow> bool" where
  "is_address s =
     (case split_sheet s of
        None \<Rightarrow> parse_range s \<noteq> None
      | Some (sh, rp) \<Rightarrow> is_sheet_token sh \<and> parse_range rp \<noteq> None)"

section \<open>Structural adjustment of coordinates\<close>

text \<open>
  One axis, an edit at \<open>root\<close> of \<open>off\<close> lines; \<open>off = 0\<close> means the axis is not
  edited. Insert shifts every coordinate at or after \<open>root\<close>. Remove shifts the
  coordinates after the removed span back, and marks those inside it invalid with 0.
\<close>

definition coord_insert :: "nat \<Rightarrow> nat \<Rightarrow> nat \<Rightarrow> nat" where
  "coord_insert n root off = (if 0 < off \<and> root \<le> n then n + off else n)"

definition coord_remove :: "nat \<Rightarrow> nat \<Rightarrow> nat \<Rightarrow> nat" where
  "coord_remove n root off =
     (if 0 < off \<and> root + off \<le> n then n - off else if 0 < off \<and> root \<le> n then 0 else n)"

definition coord_is_remove :: "nat \<Rightarrow> nat \<Rightarrow> nat \<Rightarrow> bool" where
  "coord_is_remove n root off \<longleftrightarrow> 0 < off \<and> root \<le> n \<and> n < root + off"

definition coordinate_insert :: "coordinate \<Rightarrow> nat \<Rightarrow> nat \<Rightarrow> nat \<Rightarrow> nat \<Rightarrow> coordinate" where
  "coordinate_insert c rc oc rr orr =
     c\<lparr>col_num := coord_insert (col_num c) rc oc, row_num := coord_insert (row_num c) rr orr\<rparr>"

definition coordinate_remove :: "coordinate \<Rightarrow> nat \<Rightarrow> nat \<Rightarrow> nat \<Rightarrow> nat \<Rightarrow> coordinate" where
  "coordinate_remove c rc oc rr orr =
     c\<lparr>col_num := coord_remove (col_num c) rc oc, row_num := coord_remove (row_num c) rr orr\<rparr>"

definition coordinate_is_remove :: "coordinate \<Rightarrow> nat \<Rightarrow> nat \<Rightarrow> nat \<Rightarrow> nat \<Rightarrow> bool" where
  "coordinate_is_remove c rc oc rr orr \<longleftrightarrow>
     coord_is_remove (col_num c) rc oc \<or> coord_is_remove (row_num c) rr orr"

text \<open>\<open>Range\<close>'s \<open>AdjustmentCoordinate\<close>: both corners, independently.\<close>

definition range_adjustment_insert_coordinate ::
  "cell_range \<Rightarrow> nat \<Rightarrow> nat \<Rightarrow> nat \<Rightarrow> nat \<Rightarrow> cell_range" where
  "range_adjustment_insert_coordinate r rc oc rr orr =
     \<lparr>coordinate_start = coordinate_insert (coordinate_start r) rc oc rr orr,
      coordinate_end = map_option (\<lambda>e. coordinate_insert e rc oc rr orr) (coordinate_end r)\<rparr>"

definition range_adjustment_remove_coordinate ::
  "cell_range \<Rightarrow> nat \<Rightarrow> nat \<Rightarrow> nat \<Rightarrow> nat \<Rightarrow> cell_range" where
  "range_adjustment_remove_coordinate r rc oc rr orr =
     \<lparr>coordinate_start = coordinate_remove (coordinate_start r) rc oc rr orr,
      coordinate_end = map_option (\<lambda>e. coordinate_remove e rc oc rr orr) (coordinate_end r)\<rparr>"

text \<open>A range goes when every corner it has is in the removed span.\<close>

definition range_is_remove :: "cell_range \<Rightarrow> nat \<Rightarrow> nat \<Rightarrow> nat \<Rightarrow> nat \<Rightarrow> bool" where
  "range_is_remove r rc oc rr orr \<longleftrightarrow>
     coordinate_is_remove (coordinate_start r) rc oc rr orr \<and>
     (case coordinate_end r of None \<Rightarrow> True | Some e \<Rightarrow> coordinate_is_remove e rc oc rr orr)"

text \<open>\<open>Address::is_remove\<close>: only an address on the edited sheet is removed.\<close>

definition address_is_remove :: "address \<Rightarrow> string \<Rightarrow> nat \<Rightarrow> nat \<Rightarrow> nat \<Rightarrow> nat \<Rightarrow> bool" where
  "address_is_remove a sheet rc oc rr orr \<longleftrightarrow>
     sheet_name a = sheet \<and> range_is_remove (addr_range a) rc oc rr orr"

definition address_set_sheet_name :: "string \<Rightarrow> address \<Rightarrow> address" where
  "address_set_sheet_name n a = a\<lparr>sheet_name := n\<rparr>"

section \<open>Canonical addresses\<close>

definition valid_coordinate :: "coordinate \<Rightarrow> bool" where
  "valid_coordinate c \<longleftrightarrow> 0 < col_num c \<and> 0 < row_num c"

text \<open>
  A canonical address has valid corners and a sheet name that is empty or does not
  start with an apostrophe and has none of \<open>( ) \"\<close>: the comma splitter of the defined
  names counts parentheses and double quotes even inside a quoted sheet name.
\<close>

definition canonical_address :: "address \<Rightarrow> bool" where
  "canonical_address a \<longleftrightarrow>
     valid_coordinate (coordinate_start (addr_range a)) \<and>
     (case coordinate_end (addr_range a) of None \<Rightarrow> True | Some e \<Rightarrow> valid_coordinate e) \<and>
     (sheet_name a = [] \<or> hd (sheet_name a) \<noteq> apos) \<and>
     (\<forall>c \<in> set (sheet_name a). c \<notin> set ''()\"'')"

text \<open>
  Reference text already in the form the printer gives: \<open>[$]COL[$]ROW\<close> with a row
  without leading zero, an optional second corner after \<open>:\<close>, and an optional sheet
  part that is a word or a quoted name whose apostrophes are doubled.
\<close>

definition canonical_coordinate_text :: "string \<Rightarrow> bool" where
  "canonical_coordinate_text s =
     (let s1 = snd (take_dollar s); ls = takeWhile is_upper s1;
          s3 = snd (take_dollar (dropWhile is_upper s1))
      in ls \<noteq> [] \<and> s3 \<noteq> [] \<and> list_all is_digit s3 \<and> hd s3 \<noteq> CHR ''0'')"

definition canonical_range_text :: "string \<Rightarrow> bool" where
  "canonical_range_text s =
     (if CHR '':'' \<in> set s
      then canonical_coordinate_text (takeWhile (\<lambda>c. c \<noteq> CHR '':'') s) \<and>
           canonical_coordinate_text (tl (dropWhile (\<lambda>c. c \<noteq> CHR '':'') s))
      else canonical_coordinate_text s)"

definition canonical_sheet_text :: "string \<Rightarrow> bool" where
  "canonical_sheet_text sh =
     ((sh \<noteq> [] \<and> list_all is_word_char sh) \<or>
      (3 \<le> length sh \<and> hd sh = apos \<and> last sh = apos \<and>
       (let q = butlast (tl sh); n = unquote_pairs q
        in quoted_body q \<and> \<not> list_all is_word_char n \<and> hd n \<noteq> apos \<and>
           list_all (\<lambda>c. c \<notin> set ''()\"'') n)))"

definition canonical_token :: "string \<Rightarrow> bool" where
  "canonical_token t =
     (case split_sheet t of
        None \<Rightarrow> canonical_range_text t
      | Some (sh, rp) \<Rightarrow> canonical_sheet_text sh \<and> canonical_range_text rp)"

definition canonical_corners :: "cell_range \<Rightarrow> bool" where
  "canonical_corners r \<longleftrightarrow>
     valid_coordinate (coordinate_start r) \<and>
     (case coordinate_end r of None \<Rightarrow> True | Some e \<Rightarrow> valid_coordinate e)"

section \<open>Printing and parsing agree\<close>

lemma letters_col_snoc [simp]: "letters_col (s @ [c]) = 26 * letters_col s + ((of_char c :: nat) - 64)"
  by (simp add: letters_col_def)

lemma letters_col_col_letters [simp]: "letters_col (col_letters n) = n"
proof (induction n rule: col_letters.induct)
  case (1 n)
  show ?case
  proof (cases "n = 0")
    case True
    then show ?thesis by (simp add: col_letters.simps letters_col_def)
  next
    case False
    have "(n - 1) mod 26 < 26" by simp
    then have "(of_char (char_of (65 + (n - 1) mod 26) :: char) :: nat) = 65 + (n - 1) mod 26"
      by simp
    with False "1.IH" show ?thesis
      by (simp add: col_letters.simps[of n])
  qed
qed

lemma col_letters_upper: "list_all is_upper (col_letters n)"
  by (induction n rule: col_letters.induct) (auto simp: col_letters.simps is_upper_def Let_def)

lemma col_letters_nil_iff [simp]: "col_letters n = [] \<longleftrightarrow> n = 0"
  by (simp add: col_letters.simps)

lemma upper_bounds: "is_upper c \<Longrightarrow> 65 \<le> (of_char c :: nat) \<and> (of_char c :: nat) \<le> 90"
  by (simp add: is_upper_def Let_def)

lemma letters_col_pos: "s \<noteq> [] \<Longrightarrow> list_all is_upper s \<Longrightarrow> 0 < letters_col s"
proof (induction s rule: rev_induct)
  case Nil then show ?case by simp
next
  case (snoc c s)
  then have "65 \<le> (of_char c :: nat)" by (simp add: upper_bounds)
  then show ?case by simp
qed

lemma col_letters_letters_col:
  "list_all is_upper s \<Longrightarrow> col_letters (letters_col s) = s"
proof (induction s rule: rev_induct)
  case Nil
  then show ?case by (simp add: letters_col_def col_letters.simps)
next
  case (snoc c s)
  let ?k = "letters_col s" and ?d = "(of_char c :: nat) - 64"
  have c: "65 \<le> (of_char c :: nat)" "(of_char c :: nat) \<le> 90" using snoc.prems by (simp_all add: upper_bounds)
  define n where "n = 26 * ?k + ?d"
  have n0: "n \<noteq> 0" and e: "n - 1 = (?d - 1) + 26 * ?k" and e2: "?d - 1 < 26"
    using c by (simp_all add: n_def)
  have q: "(n - 1) div 26 = ?k" and r: "(n - 1) mod 26 = ?d - 1"
    unfolding e using e2 by simp_all
  have "65 + (?d - 1) = (of_char c :: nat)" using c by simp
  then have ch: "char_of (65 + (?d - 1)) = c" by simp
  have "col_letters n = col_letters ((n - 1) div 26) @ [char_of (65 + (n - 1) mod 26)]"
    using n0 by (subst col_letters.simps) simp
  also have "\<dots> = s @ [c]" using q r ch snoc.IH snoc.prems by simp
  finally show ?case by (simp add: n_def)
qed

lemma upper_not_dollar [simp]: "\<not> is_upper CHR ''$''" "\<not> is_digit CHR ''$''"
  "\<not> is_digit CHR '':''" "\<not> is_upper CHR '':''"
  by (simp_all add: is_upper_def is_digit_def)

lemma take_dollar_dollar: "take_dollar (dollar b @ s) = (if b then (True, s) else take_dollar s)"
  by (simp add: take_dollar_def dollar_def)

lemma take_dollar_upper: "s \<noteq> [] \<Longrightarrow> is_upper (hd s) \<Longrightarrow> take_dollar s = (False, s)"
  by (auto simp: take_dollar_def)

lemma take_dollar_digit: "s \<noteq> [] \<Longrightarrow> is_digit (hd s) \<Longrightarrow> take_dollar s = (False, s)"
  by (auto simp: take_dollar_def is_digit_def)

lemma parse_coordinate_str:
  assumes "0 < col_num c" and "rest = [] \<or> \<not> is_digit (hd rest)"
  shows "parse_coordinate (coordinate_str c @ rest) = Some (c, rest)"
proof -
  let ?L = "col_letters (col_num c)" and ?D = "show_nat (row_num c)"
  have L: "?L \<noteq> []" "list_all is_upper ?L" using assms(1) col_letters_upper by auto
  have D: "?D \<noteq> []" "list_all is_digit ?D" using show_nat_digits by auto
  have hdD: "is_digit (hd ?D)" using D by (cases ?D) auto
  have hdL: "is_upper (hd ?L)" using L by (cases ?L) auto
  have t1: "take_dollar (?L @ dollar (row_lock c) @ ?D @ rest) = (False, ?L @ dollar (row_lock c) @ ?D @ rest)"
    using L hdL by (intro take_dollar_upper) auto
  have t2: "take_dollar (?D @ rest) = (False, ?D @ rest)"
    using D hdD by (intro take_dollar_digit) auto
  have nu: "\<not> is_upper (hd (dollar (row_lock c) @ ?D @ rest))"
    using D hdD by (auto simp: dollar_def is_digit_not_upper)
  have tw: "takeWhile is_upper (?L @ dollar (row_lock c) @ ?D @ rest) = ?L"
    using L nu by (simp add: list_all_iff takeWhile_eq_Nil_iff)
  have dw: "dropWhile is_upper (?L @ dollar (row_lock c) @ ?D @ rest) = dollar (row_lock c) @ ?D @ rest"
    using L nu by (simp add: list_all_iff dropWhile_eq_self_iff)
  have tw2: "takeWhile is_digit (?D @ rest) = ?D" and dw2: "dropWhile is_digit (?D @ rest) = rest"
    using D assms(2) by (cases rest; simp add: list_all_iff)+
  have a1: "take_dollar (coordinate_str c @ rest) = (col_lock c, ?L @ dollar (row_lock c) @ ?D @ rest)"
    using t1 by (cases "col_lock c") (simp_all add: coordinate_str_def take_dollar_dollar)
  have a2: "take_dollar (dollar (row_lock c) @ ?D @ rest) = (row_lock c, ?D @ rest)"
    using t2 by (cases "row_lock c") (simp_all add: take_dollar_dollar)
  show ?thesis
    using L(1) D(1) by (simp add: parse_coordinate_def a1 a2 t2 tw dw tw2 dw2 Let_def)
qed

lemma parse_range_str:
  assumes "valid_coordinate (coordinate_start r)"
    and "case coordinate_end r of None \<Rightarrow> True | Some e \<Rightarrow> valid_coordinate e"
  shows "parse_range (range_str r) = Some r"
proof (cases "coordinate_end r")
  case None
  with assms show ?thesis
    by (simp add: parse_range_def range_str_def valid_coordinate_def
        parse_coordinate_str[where rest = "[]", simplified])
next
  case (Some e)
  have "parse_coordinate (coordinate_str (coordinate_start r) @ CHR '':'' # coordinate_str e) =
        Some (coordinate_start r, CHR '':'' # coordinate_str e)"
    using assms(1) by (intro parse_coordinate_str) (simp_all add: valid_coordinate_def)
  moreover have "parse_coordinate (coordinate_str e) = Some (e, [])"
    using assms(2) Some parse_coordinate_str[of e "[]"] by (simp add: valid_coordinate_def)
  ultimately show ?thesis
    using Some by (simp add: parse_range_def range_str_def)
qed

lemma coordinate_str_chars:
  "x \<in> set (coordinate_str c) \<Longrightarrow> is_upper x \<or> is_digit x \<or> x = CHR ''$''"
  using col_letters_upper[of "col_num c"] show_nat_digits[of "row_num c"]
  by (auto simp: coordinate_str_def dollar_def list_all_iff split: if_splits)

lemma range_str_chars:
  "x \<in> set (range_str r) \<Longrightarrow> is_upper x \<or> is_digit x \<or> x = CHR ''$'' \<or> x = CHR '':''"
  by (auto simp: range_str_def split: option.splits dest: coordinate_str_chars)

lemma range_str_no_bang: "CHR ''!'' \<notin> set (range_str r)" and
  range_str_no_apos: "apos \<notin> set (range_str r)"
  by (auto dest!: range_str_chars simp: is_upper_def is_digit_def)

lemma split_sheet_none: "CHR ''!'' \<notin> set s \<Longrightarrow> split_sheet s = None"
  by (auto simp: split_sheet_def Let_def)

lemma split_sheet_bang:
  "CHR ''!'' \<notin> set rp \<Longrightarrow> split_sheet (pre @ CHR ''!'' # rp) = Some (pre, rp)"
proof -
  assume "CHR ''!'' \<notin> set rp"
  then have *: "\<And>x. x \<in> set (rev rp) \<Longrightarrow> x \<noteq> CHR ''!''" by auto
  let ?P = "\<lambda>c. c \<noteq> CHR ''!''" and ?s = "rev rp @ CHR ''!'' # rev pre"
  have t: "takeWhile ?P ?s = rev rp"
    using takeWhile_append2[of "rev rp" ?P "CHR ''!'' # rev pre"] * by auto
  have d: "dropWhile ?P ?s = CHR ''!'' # rev pre"
    using dropWhile_append2[of "rev rp" ?P "CHR ''!'' # rev pre"] * by auto
  show ?thesis by (simp add: split_sheet_def Let_def t d)
qed

lemma quoted_body_Cons_other [simp]: "c \<noteq> apos \<Longrightarrow> quoted_body (c # cs) = quoted_body cs"
  by (cases cs) auto

lemma quoted_body_double: "quoted_body (double_quotes n)"
  by (induction n) auto

lemma word_char_not_special [simp]:
  "\<not> is_word_char apos" "\<not> is_word_char CHR ''!''"
  by (simp_all add: is_word_char_def is_upper_def is_digit_def)

lemma double_quotes_nil_iff [simp]: "double_quotes n = [] \<longleftrightarrow> n = []"
  by (cases n) auto

lemma range_str_not_nil: "valid_coordinate (coordinate_start r) \<Longrightarrow> range_str r \<noteq> []"
  by (simp add: range_str_def coordinate_str_def valid_coordinate_def)

lemma is_address_ptn2:
  assumes "canonical_address a"
  shows "is_address (get_address_ptn2 a)"
proof -
  let ?n = "sheet_name a" and ?R = "range_str (addr_range a)"
  have pr: "parse_range ?R \<noteq> None"
    using assms parse_range_str by (simp add: canonical_address_def)
  consider "?n = []" | "?n \<noteq> []" "list_all is_word_char ?n" | "?n \<noteq> []" "\<not> list_all is_word_char ?n"
    by blast
  then show ?thesis
  proof cases
    case 1
    with pr show ?thesis
      by (simp add: is_address_def get_address_ptn2_def sheet_prefix_def split_sheet_none range_str_no_bang)
  next
    case 2
    with pr show ?thesis
      by (simp add: is_address_def get_address_ptn2_def sheet_prefix_def split_sheet_bang
          range_str_no_bang is_sheet_token_def)
  next
    case 3
    have sp: "split_sheet (get_address_ptn2 a) = Some (apos # double_quotes ?n @ [apos], ?R)"
      using 3 split_sheet_bang[of ?R "apos # double_quotes ?n @ [apos]"]
      by (simp add: get_address_ptn2_def sheet_prefix_def range_str_no_bang)
    have "3 \<le> length (apos # double_quotes ?n @ [apos])"
      using 3 by (cases ?n) auto
    with 3 pr sp quoted_body_double[of ?n] show ?thesis
      by (simp add: is_address_def is_sheet_token_def)
  qed
qed

lemma unquote_pairs_quoted_sheet:
  assumes "n \<noteq> []" "hd n \<noteq> apos" "apos \<notin> set R"
  shows "unquote_pairs (apos # double_quotes n @ apos # CHR ''!'' # R) = apos # n @ apos # CHR ''!'' # R"
proof -
  obtain c m where n: "n = c # m" and c: "c \<noteq> apos" using assms by (cases n) auto
  have "unquote_pairs (apos # c # double_quotes m @ apos # CHR ''!'' # R) =
        apos # c # unquote_pairs (double_quotes m @ apos # CHR ''!'' # R)"
    using c by simp
  also have "\<dots> = apos # c # m @ unquote_pairs (apos # CHR ''!'' # R)"
    by (simp add: unquote_pairs_double_append)
  also have "\<dots> = apos # c # m @ apos # CHR ''!'' # R"
    using assms(3) by simp
  finally show ?thesis using n c by simp
qed

lemma address_set_address_ptn2:
  assumes "canonical_address a"
  shows "address_set_address (unquote_pairs (get_address_ptn2 a)) address_default = a"
proof -
  let ?n = "sheet_name a" and ?R = "range_str (addr_range a)"
  have pr: "parse_range ?R = Some (addr_range a)"
    using assms parse_range_str by (simp add: canonical_address_def)
  have noq: "apos \<notin> set ?R" "CHR ''!'' \<notin> set ?R"
    by (simp_all add: range_str_no_apos range_str_no_bang)
  consider "?n = []" | "?n \<noteq> []" "list_all is_word_char ?n" | "?n \<noteq> []" "\<not> list_all is_word_char ?n"
    by blast
  then show ?thesis
  proof cases
    case 1
    with pr noq show ?thesis
      by (simp add: address_set_address_def get_address_ptn2_def sheet_prefix_def split_sheet_none
          address_default_def strip_quotes_def)
  next
    case 2
    then have "apos \<notin> set ?n" by (auto simp: list_all_iff)
    then have "hd ?n \<noteq> apos" using 2 by (cases ?n) auto
    with \<open>apos \<notin> set ?n\<close> 2 pr noq show ?thesis
      by (simp add: address_set_address_def get_address_ptn2_def sheet_prefix_def split_sheet_bang
          address_default_def strip_quotes_def)
  next
    case 3
    have hd: "hd ?n \<noteq> apos" using assms 3 by (simp add: canonical_address_def)
    have "unquote_pairs (get_address_ptn2 a) = (apos # ?n @ [apos]) @ CHR ''!'' # ?R"
      using 3 hd noq unquote_pairs_quoted_sheet[of ?n ?R]
      by (simp add: get_address_ptn2_def sheet_prefix_def)
    then have "split_sheet (unquote_pairs (get_address_ptn2 a)) = Some (apos # ?n @ [apos], ?R)"
      using noq split_sheet_bang by presburger
    with 3 pr show ?thesis
      by (simp add: address_set_address_def address_default_def strip_quotes_def)
  qed
qed

section \<open>Removing what was inserted\<close>

lemma coord_remove_insert [simp]: "coord_remove (coord_insert n root off) root off = n"
  by (simp add: coord_remove_def coord_insert_def)

lemma coord_is_remove_insert [simp]: "\<not> coord_is_remove (coord_insert n root off) root off"
  by (simp add: coord_is_remove_def coord_insert_def)

lemma range_remove_insert [simp]:
  "range_adjustment_remove_coordinate (range_adjustment_insert_coordinate r rc oc rr orr) rc oc rr orr = r"
  by (simp add: range_adjustment_remove_coordinate_def range_adjustment_insert_coordinate_def
      coordinate_remove_def coordinate_insert_def option.map_comp o_def option.map_ident)

lemma range_not_remove_insert [simp]:
  "\<not> range_is_remove (range_adjustment_insert_coordinate r rc oc rr orr) rc oc rr orr"
  by (simp add: range_is_remove_def range_adjustment_insert_coordinate_def coordinate_is_remove_def
      coordinate_insert_def)

lemma coord_insert_pos: "0 < n \<Longrightarrow> 0 < coord_insert n root off"
  by (simp add: coord_insert_def)

section \<open>Canonical text is printed text\<close>

lemma take_dollar_split: "take_dollar s = (b, r) \<Longrightarrow> s = dollar b @ r"
  by (cases s) (auto simp: take_dollar_def dollar_def split: if_splits)

lemma canonical_coordinate_text_str:
  assumes "canonical_coordinate_text s"
  shows "\<exists>c. valid_coordinate c \<and> coordinate_str c = s"
proof -
  obtain b1 s1 where t1: "take_dollar s = (b1, s1)" by fastforce
  define ls where "ls = takeWhile is_upper s1"
  obtain b2 s3 where t2: "take_dollar (dropWhile is_upper s1) = (b2, s3)" by fastforce
  have h: "ls \<noteq> []" "s3 \<noteq> []" "list_all is_digit s3" "hd s3 \<noteq> CHR ''0''"
    using assms t1 t2 by (simp_all add: canonical_coordinate_text_def ls_def Let_def)
  have up: "list_all is_upper ls" by (auto simp: ls_def list_all_iff dest: set_takeWhileD)
  have "s1 = ls @ dropWhile is_upper s1" by (simp add: ls_def)
  then have s: "s = dollar b1 @ ls @ dollar b2 @ s3"
    using take_dollar_split[OF t1] take_dollar_split[OF t2] by simp
  have n: "0 < parse_nat s3 \<and> show_nat (parse_nat s3) = s3"
    using show_nat_parse_nat h(2-4) .
  let ?c = "\<lparr>col_num = letters_col ls, col_lock = b1, row_num = parse_nat s3, row_lock = b2\<rparr>"
  have "valid_coordinate ?c" using n letters_col_pos[OF h(1) up] by (simp add: valid_coordinate_def)
  moreover have "coordinate_str ?c = s"
    using s n col_letters_letters_col[OF up] by (simp add: coordinate_str_def)
  ultimately show ?thesis by blast
qed

lemma colon_not_upper_digit [simp]: "\<not> is_upper CHR '':''" "\<not> is_digit CHR '':''"
  by (simp_all add: is_upper_def is_digit_def)

lemma coordinate_str_no_colon: "CHR '':'' \<notin> set (coordinate_str c)"
  using coordinate_str_chars[of "CHR '':''" c] by auto

lemma canonical_range_text_str:
  assumes "canonical_range_text s"
  shows "\<exists>r. canonical_corners r \<and> range_str r = s"
proof (cases "CHR '':'' \<in> set s")
  case True
  define a where "a = takeWhile (\<lambda>c. c \<noteq> CHR '':'') s"
  define b where "b = tl (dropWhile (\<lambda>c. c \<noteq> CHR '':'') s)"
  have "dropWhile (\<lambda>c. c \<noteq> CHR '':'') s \<noteq> []" using True by (simp add: dropWhile_eq_Nil_conv)
  moreover have "dropWhile (\<lambda>c. c \<noteq> CHR '':'') s = [] \<or>
                 hd (dropWhile (\<lambda>c. c \<noteq> CHR '':'') s) = CHR '':''"
    using hd_dropWhile by blast
  ultimately have "dropWhile (\<lambda>c. c \<noteq> CHR '':'') s = CHR '':'' # b"
    by (cases "dropWhile (\<lambda>c. c \<noteq> CHR '':'') s") (auto simp: b_def)
  then have s: "s = a @ CHR '':'' # b" unfolding a_def by (metis takeWhile_dropWhile_id)
  obtain c1 c2 where "valid_coordinate c1" "coordinate_str c1 = a"
    "valid_coordinate c2" "coordinate_str c2 = b"
    using assms True canonical_coordinate_text_str
    unfolding canonical_range_text_def a_def b_def by metis
  then show ?thesis using s
    by (intro exI[of _ "\<lparr>coordinate_start = c1, coordinate_end = Some c2\<rparr>"])
       (simp add: canonical_corners_def range_str_def)
next
  case False
  then obtain c where "valid_coordinate c" "coordinate_str c = s"
    using assms canonical_coordinate_text_str unfolding canonical_range_text_def by metis
  then show ?thesis
    by (intro exI[of _ "\<lparr>coordinate_start = c, coordinate_end = None\<rparr>"])
       (simp add: canonical_corners_def range_str_def)
qed

lemma double_quotes_unquote_pairs: "quoted_body q \<Longrightarrow> double_quotes (unquote_pairs q) = q"
  by (induction q rule: quoted_body.induct) (auto split: if_splits)

lemma split_sheet_Some: "split_sheet t = Some (sh, rp) \<Longrightarrow> t = sh @ CHR ''!'' # rp"
proof -
  assume a: "split_sheet t = Some (sh, rp)"
  let ?P = "\<lambda>c. c \<noteq> CHR ''!''"
  have ne: "dropWhile ?P (rev t) \<noteq> []" and sh: "sh = butlast (rev (dropWhile ?P (rev t)))"
    and rp: "rp = rev (takeWhile ?P (rev t))"
    using a by (auto simp: split_sheet_def Let_def split: if_splits)
  obtain rest where d: "dropWhile ?P (rev t) = CHR ''!'' # rest"
    using ne hd_dropWhile[OF ne] by (cases "dropWhile ?P (rev t)") auto
  have "rev t = takeWhile ?P (rev t) @ CHR ''!'' # rest" using d by (metis takeWhile_dropWhile_id)
  then have "t = rev rest @ CHR ''!'' # rev (takeWhile ?P (rev t))" by (metis rev_rev_ident rev.simps(2) rev_append append_assoc append_Cons append_Nil)
  then show ?thesis using sh rp d by simp
qed

lemma word_char_not_paren [simp]:
  "\<not> is_word_char CHR ''(''" "\<not> is_word_char CHR '')''" "\<not> is_word_char CHR 0x22"
  by (simp_all add: is_word_char_def is_upper_def is_digit_def)

lemma hd_butlast_tl_last:
  "2 \<le> length sh \<Longrightarrow> sh = hd sh # butlast (tl sh) @ [last sh]"
  by (cases sh) (auto simp: last_ConsR)

lemma canonical_token_printed:
  assumes "canonical_token t"
  shows "\<exists>a. canonical_address a \<and> get_address_ptn2 a = t"
proof (cases "split_sheet t")
  case None
  then obtain r where r: "canonical_corners r" "range_str r = t"
    using assms canonical_range_text_str by (auto simp: canonical_token_def)
  show ?thesis using r
    by (intro exI[of _ "\<lparr>sheet_name = [], addr_range = r\<rparr>"])
       (simp add: canonical_address_def canonical_corners_def get_address_ptn2_def sheet_prefix_def)
next
  case (Some p)
  then obtain sh rp where p: "split_sheet t = Some (sh, rp)" by (cases p) auto
  then have t: "t = sh @ CHR ''!'' # rp" by (rule split_sheet_Some)
  have cs: "canonical_sheet_text sh" and "canonical_range_text rp"
    using assms p by (simp_all add: canonical_token_def)
  then obtain r where r: "canonical_corners r" "range_str r = rp"
    using canonical_range_text_str by blast
  obtain n where n: "sheet_prefix n = sh @ ''!''" "n = [] \<or> hd n \<noteq> apos"
    "\<forall>c \<in> set n. c \<notin> set ''()\"''"
  proof (cases "sh \<noteq> [] \<and> list_all is_word_char sh")
    case True
    then have "hd sh \<noteq> apos" using word_char_not_special(1) by (cases sh) auto
    moreover have "\<forall>c \<in> set sh. c \<notin> set ''()\"''"
      using True by (auto simp: list_all_iff)
    ultimately show ?thesis using True that[of sh] by (simp add: sheet_prefix_def)
  next
    case False
    define q where "q = butlast (tl sh)"
    have h: "3 \<le> length sh" "hd sh = apos" "last sh = apos" "quoted_body q"
      "\<not> list_all is_word_char (unquote_pairs q)" "hd (unquote_pairs q) \<noteq> apos"
      "list_all (\<lambda>c. c \<notin> set ''()\"'') (unquote_pairs q)"
      using cs False by (simp_all add: canonical_sheet_text_def Let_def q_def)
    have sh: "sh = apos # q @ [apos]"
      using hd_butlast_tl_last[of sh] h(1-3) by (simp add: q_def)
    have "unquote_pairs q \<noteq> []" using h(5) by auto
    then have "sheet_prefix (unquote_pairs q) = sh @ ''!''"
      using h(4,5) sh by (simp add: sheet_prefix_def double_quotes_unquote_pairs)
    then show ?thesis using h(6,7) that[of "unquote_pairs q"] by (simp add: list_all_iff)
  qed
  show ?thesis using r n t
    by (intro exI[of _ "\<lparr>sheet_name = n, addr_range = r\<rparr>"])
       (simp add: canonical_address_def canonical_corners_def get_address_ptn2_def)
qed

end
