(* ===== verification/XmlEvents.thy ===== *)
theory XmlEvents
  imports Prelude
begin

text \<open>
  The markup event stream that the element readers consume and the writers produce
  (quick_xml's \<open>Reader::read_event\<close> and \<open>Writer\<close>, and the crate's
  \<open>reader::driver::get_attribute\<close> and \<open>writer::driver::write_*\<close>). They are library or
  driver code outside the sources and are modelled from the specification (sections 4.4,
  4.5 and 6): a stream is a finite list of items, each an event or a read error; reading
  past its end gives \<open>Eof\<close>, as quick_xml does. Text events carry the escaped text, which
  the reader unescapes; attribute values are carried decoded.
\<close>

type_synonym attrs = "(string \<times> string) list"

datatype xml_event =
    Start string attrs
  | Empty string attrs
  | End string
  | Text string
  | Eof
  | Other

datatype xml_item = Ev xml_event | ReadError string

type_synonym xml_stream = "xml_item list"

text \<open>\<open>Reader::read_event\<close>: the next event, or the error, and the rest of the stream.\<close>

fun read_event :: "xml_stream \<Rightarrow> (string + xml_event) \<times> xml_stream" where
  "read_event [] = (Inr Eof, [])"
| "read_event (Ev e # s) = (Inr e, s)"
| "read_event (ReadError m # s) = (Inl m, s)"

text \<open>\<open>get_attribute(e, key)\<close>: the value of the first attribute with that key.\<close>

definition get_attribute :: "attrs \<Rightarrow> string \<Rightarrow> string option" where
  "get_attribute as k = map_of as k"

section \<open>Escaping of text\<close>

definition xml_entities :: "(string \<times> char) list" where
  "xml_entities =
     [(''amp;'', CHR ''&''), (''lt;'', CHR ''<''), (''gt;'', CHR ''>''),
      (''apos;'', apos), (''quot;'', CHR 0x22)]"

fun starts_with :: "string \<Rightarrow> string \<Rightarrow> bool" where
  "starts_with [] s = True"
| "starts_with (p # ps) [] = False"
| "starts_with (p # ps) (c # cs) = (p = c \<and> starts_with ps cs)"

definition escape_char :: "char \<Rightarrow> string" where
  "escape_char c =
     (case find (\<lambda>(n, ch). ch = c) xml_entities of None \<Rightarrow> [c] | Some (n, _) \<Rightarrow> CHR ''&'' # n)"

text \<open>\<open>BytesText::new\<close>: the five markup-reserved characters become entities.\<close>

definition escape_text :: "string \<Rightarrow> string" where
  "escape_text s = concat (map escape_char s)"

text \<open>
  A reference after \<open>&\<close>: a named entity of the five, or a decimal character
  reference \<open>&#N;\<close> naming a byte; the character and how many characters follow the
  \<open>&\<close>. Other references are an error of \<open>unescape\<close>.
\<close>

definition entity_ref :: "string \<Rightarrow> (char \<times> nat) option" where
  "entity_ref cs =
     (case find (\<lambda>(n, _). starts_with n cs) xml_entities of
        Some (n, ch) \<Rightarrow> Some (ch, length n)
      | None \<Rightarrow>
          (if cs \<noteq> [] \<and> hd cs = CHR ''#'' then
             (let ds = takeWhile is_digit (tl cs); r = dropWhile is_digit (tl cs)
              in if ds \<noteq> [] \<and> r \<noteq> [] \<and> hd r = CHR '';'' \<and> parse_nat ds < 256
                 then Some (char_of (parse_nat ds), length ds + 2) else None)
           else None))"

fun unescape :: "string \<Rightarrow> string option" where
  "unescape [] = Some []"
| "unescape (c # cs) =
     (if c = CHR ''&'' then
        (case entity_ref cs of
           None \<Rightarrow> None
         | Some (ch, k) \<Rightarrow> map_option (Cons ch) (unescape (drop k cs)))
      else map_option (Cons c) (unescape cs))"

section \<open>Writer\<close>

text \<open>The writer is the list of events written so far.\<close>

type_synonym xml_writer = "xml_event list"

definition write_start_tag :: "xml_writer \<Rightarrow> string \<Rightarrow> attrs \<Rightarrow> bool \<Rightarrow> xml_writer" where
  "write_start_tag w n as is_empty = w @ [if is_empty then Empty n as else Start n as]"

definition write_text_node :: "xml_writer \<Rightarrow> string \<Rightarrow> xml_writer" where
  "write_text_node w t = w @ [Text (escape_text t)]"

definition write_end_tag :: "xml_writer \<Rightarrow> string \<Rightarrow> xml_writer" where
  "write_end_tag w n = w @ [End n]"

text \<open>What a reader sees of written events.\<close>

definition as_stream :: "xml_writer \<Rightarrow> xml_stream" where
  "as_stream w = map Ev w"

text \<open>The open elements after a sequence of events, innermost first, starting from
  \<open>stk\<close>; \<open>None\<close> when an end tag does not close the innermost open element or
  the input ends. A writer's output is well nested when it leaves the stack as it was.\<close>

fun open_tags :: "string list \<Rightarrow> xml_event list \<Rightarrow> string list option" where
  "open_tags stk [] = Some stk"
| "open_tags stk (Start n as # es) = open_tags (n # stk) es"
| "open_tags stk (End n # es) =
     (case stk of [] \<Rightarrow> None | m # stk' \<Rightarrow> if m = n then open_tags stk' es else None)"
| "open_tags stk (Eof # es) = None"
| "open_tags stk (Empty n as # es) = open_tags stk es"
| "open_tags stk (Text t # es) = open_tags stk es"
| "open_tags stk (Other # es) = open_tags stk es"

section \<open>Lemmas\<close>

lemma escape_text_simps [simp]:
  "escape_text [] = []"
  "escape_text (c # cs) = escape_char c @ escape_text cs"
  by (simp_all add: escape_text_def)

lemma unescape_escape_char:
  "unescape (escape_char c @ rest) = map_option (Cons c) (unescape rest)"
  by (simp add: escape_char_def xml_entities_def entity_ref_def)

lemma unescape_escape_text [simp]: "unescape (escape_text s) = Some s"
  by (induction s) (simp_all add: unescape_escape_char)

lemma as_stream_append [simp]: "as_stream (w @ v) = as_stream w @ as_stream v"
  by (simp add: as_stream_def)

lemma open_tags_append:
  "open_tags stk (xs @ ys) = (case open_tags stk xs of None \<Rightarrow> None | Some stk' \<Rightarrow> open_tags stk' ys)"
  by (induction stk xs rule: open_tags.induct) (auto split: list.splits option.splits)

end
