(* ===== verification/DefinedName.thy ===== *)
theory DefinedName
  imports TypedValue Address XmlEvents
begin

text \<open>
  \<open>structs::DefinedName\<close> (src/src/structs/defined_name.rs): a named range of the
  workbook. It owns a list of structured addresses or a literal fallback string, a name
  and an optional local sheet id. Every method of the struct is a definition here, in
  the order of the source; \<open>&mut self\<close> methods take the struct and return it updated.
  The theory proves the comma splitter's behaviour, the round trip of the address text
  through \<open>get_address\<close>/\<open>set_address\<close>, the owner invariant and where the code breaks
  it, the structural-edit methods, and the markup reader and writer of the element.
\<close>

section \<open>The struct\<close>

record defined_name =
  name :: string_value
  address :: "address list"
  string_value :: string_value
  local_sheet_id :: uint32_value

definition defined_name_default :: defined_name where
  "defined_name_default = \<lparr>name = Unset, address = [], string_value = Unset, local_sheet_id = Unset\<rparr>"

section \<open>Accessors and setters\<close>

definition get_name :: "defined_name \<Rightarrow> string" where
  "get_name d = get_value_str (name d)"

definition set_name :: "string \<Rightarrow> defined_name \<Rightarrow> defined_name" where
  "set_name v d = d\<lparr>name := set_value v (name d)\<rparr>"

text \<open>The literal fallback wins; otherwise the addresses, printed and comma-joined.\<close>

definition get_address :: "defined_name \<Rightarrow> string" where
  "get_address d =
     (if has_value (string_value d) then get_value_str (string_value d)
      else join '','' (map get_address_ptn2 (address d)))"

text \<open>\<open>add_address\<close>: undouble the apostrophes of the whole token, parse, push.\<close>

definition add_address :: "string \<Rightarrow> defined_name \<Rightarrow> defined_name" where
  "add_address v d =
     d\<lparr>address := address d @ [address_set_address (unquote_pairs v) address_default]\<rparr>"

definition get_sheet_name_crate :: "defined_name \<Rightarrow> string" where
  "get_sheet_name_crate d =
     (if has_value (string_value d) then []
      else (case address d of [] \<Rightarrow> sheet_name address_default | a # _ \<Rightarrow> sheet_name a))"

text \<open>
  \<open>get_address_obj\<close> lends the address vector; \<open>get_address_obj_mut\<close> lends it mutably,
  so the caller may change it in any way: the change is the function \<open>f\<close>.
\<close>

definition get_address_obj :: "defined_name \<Rightarrow> address list" where
  "get_address_obj d = address d"

definition get_address_obj_mut :: "(address list \<Rightarrow> address list) \<Rightarrow> defined_name \<Rightarrow> defined_name" where
  "get_address_obj_mut f d = d\<lparr>address := f (address d)\<rparr>"

definition set_string_value :: "string \<Rightarrow> defined_name \<Rightarrow> defined_name" where
  "set_string_value v d = d\<lparr>address := [], string_value := set_value v (string_value d)\<rparr>"

definition get_local_sheet_id :: "defined_name \<Rightarrow> u32" where
  "get_local_sheet_id d = get_value_u32 (local_sheet_id d)"

definition set_local_sheet_id :: "u32 \<Rightarrow> defined_name \<Rightarrow> defined_name" where
  "set_local_sheet_id v d = d\<lparr>local_sheet_id := set_value v (local_sheet_id d)\<rparr>"

section \<open>The comma splitter\<close>

text \<open>
  \<open>split_str\<close>: the loop's variables are a record, one iteration is \<open>split_step\<close>.
  \<open>is_pass_b\<close> is Rust's inferred \<open>i32\<close>; it is an \<open>int\<close> here (2^31 nested parentheses
  are out of reach of a cell's formula text).
\<close>

record split_state =
  is_pass_s :: bool
  is_pass_d :: bool
  is_pass_b :: int
  cur :: string
  result :: "string list"

definition split_init :: split_state where
  "split_init = \<lparr>is_pass_s = False, is_pass_d = False, is_pass_b = 0, cur = [], result = []\<rparr>"

definition split_step :: "split_state \<Rightarrow> char \<Rightarrow> split_state" where
  "split_step st c =
     (if c = CHR ''('' then st\<lparr>is_pass_b := is_pass_b st + 1, cur := cur st @ [c]\<rparr>
      else if c = CHR '')'' then st\<lparr>is_pass_b := is_pass_b st - 1, cur := cur st @ [c]\<rparr>
      else if c = apos then st\<lparr>is_pass_s := \<not> is_pass_s st, cur := cur st @ [c]\<rparr>
      else if c = CHR 0x22 then
        st\<lparr>is_pass_d := \<not> is_pass_d st,
           cur := (if is_pass_s st \<or> is_pass_b st \<noteq> 0 then cur st @ [c] else cur st)\<rparr>
      else if c = CHR '','' then
        (if \<not> is_pass_s st \<and> \<not> is_pass_d st \<and> is_pass_b st = 0
         then st\<lparr>result := result st @ [cur st], cur := []\<rparr>
         else st\<lparr>cur := cur st @ [c]\<rparr>)
      else st\<lparr>cur := cur st @ [c]\<rparr>)"

definition split_str :: "string \<Rightarrow> string list" where
  "split_str v =
     (let st = foldl split_step split_init v
      in if cur st \<noteq> [] then result st @ [cur st] else result st)"

section \<open>set_address\<close>

text \<open>
  Each token is an address (pushed) or a literal (which clears the addresses and
  becomes the fallback), in order.
\<close>

definition set_address_token :: "defined_name \<Rightarrow> string \<Rightarrow> defined_name" where
  "set_address_token d v = (if is_address v then add_address v d else set_string_value v d)"

definition set_address :: "string \<Rightarrow> defined_name \<Rightarrow> defined_name" where
  "set_address v d = foldl set_address_token d (split_str v)"

section \<open>Structural edits\<close>

text \<open>
  \<open>is_remove\<close>: drop the addresses of the edited sheet that the edit removes; report
  whether the name is now empty (never when it holds a literal).
\<close>

definition is_remove ::
  "defined_name \<Rightarrow> string \<Rightarrow> nat \<Rightarrow> nat \<Rightarrow> nat \<Rightarrow> nat \<Rightarrow> bool \<times> defined_name" where
  "is_remove d sheet rc oc rr orr =
     (let d' = d\<lparr>address := filter (\<lambda>x. \<not> address_is_remove x sheet rc oc rr orr) (address d)\<rparr>
      in if has_value (string_value d') then (False, d')
         else if address d' = [] then (True, d')
         else (False, d'))"

definition set_sheet_name :: "string \<Rightarrow> defined_name \<Rightarrow> defined_name" where
  "set_sheet_name v d = d\<lparr>address := map (address_set_sheet_name v) (address d)\<rparr>"

text \<open>The \<open>AdjustmentCoordinate\<close> impl: every address, whatever its sheet.\<close>

definition adjustment_insert_coordinate ::
  "defined_name \<Rightarrow> nat \<Rightarrow> nat \<Rightarrow> nat \<Rightarrow> nat \<Rightarrow> defined_name" where
  "adjustment_insert_coordinate d rc oc rr orr =
     d\<lparr>address := map (\<lambda>a. a\<lparr>addr_range := range_adjustment_insert_coordinate (addr_range a) rc oc rr orr\<rparr>)
                    (address d)\<rparr>"

definition adjustment_remove_coordinate ::
  "defined_name \<Rightarrow> nat \<Rightarrow> nat \<Rightarrow> nat \<Rightarrow> nat \<Rightarrow> defined_name" where
  "adjustment_remove_coordinate d rc oc rr orr =
     d\<lparr>address := map (\<lambda>a. a\<lparr>addr_range := range_adjustment_remove_coordinate (addr_range a) rc oc rr orr\<rparr>)
                    (address d)\<rparr>"

section \<open>Reading the element\<close>

text \<open>
  \<open>set_attributes\<close>: the attributes of the start tag, then \<open>xml_read_loop!\<close> until
  the end tag of the element. Each text event replaces the text read so far; the end tag
  hands it to \<open>set_address\<close>. \<open>Event::Eof\<close>, a read error and a text that does not
  unescape are panics of the source (\<open>panic!\<close>, \<open>unwrap()\<close>).
\<close>

fun set_attributes_loop ::
  "string \<Rightarrow> defined_name \<Rightarrow> xml_stream \<Rightarrow> (defined_name \<times> xml_stream) outcome" where
  "set_attributes_loop v d [] = Inl (Panic ''Error not find definedName end element'')"
| "set_attributes_loop v d (ReadError m # s) = Inl (Panic m)"
| "set_attributes_loop v d (Ev e # s) =
     (case e of
        Text t \<Rightarrow>
          (case unescape t of
             None \<Rightarrow> Inl (Panic ''unescape'')
           | Some v' \<Rightarrow> set_attributes_loop v' d s)
      | End n \<Rightarrow> (if n = ''definedName'' then Inr (set_address v d, s) else set_attributes_loop v d s)
      | Eof \<Rightarrow> Inl (Panic ''Error not find definedName end element'')
      | _ \<Rightarrow> set_attributes_loop v d s)"

definition set_attributes ::
  "defined_name \<Rightarrow> attrs \<Rightarrow> xml_stream \<Rightarrow> (defined_name \<times> xml_stream) outcome" where
  "set_attributes d e s =
     (let d1 = (case get_attribute e ''name'' of
                  None \<Rightarrow> d
                | Some v \<Rightarrow> d\<lparr>name := set_value_string Some v (name d)\<rparr>);
          d2 = (case get_attribute e ''localSheetId'' of
                  None \<Rightarrow> d1
                | Some v \<Rightarrow> d1\<lparr>local_sheet_id := set_value_string parse_u32 v (local_sheet_id d1)\<rparr>)
      in set_attributes_loop [] d2 s)"

section \<open>Writing the element\<close>

definition write_to :: "defined_name \<Rightarrow> xml_writer \<Rightarrow> xml_writer" where
  "write_to d w =
     (let attributes =
            [(''name'', get_name d)] @
            (if has_value (local_sheet_id d)
             then [(''localSheetId'', get_value_string_u32 (local_sheet_id d))] else [])
      in write_end_tag
           (write_text_node (write_start_tag w ''definedName'' attributes False) (get_address d))
           ''definedName'')"

text \<open>An event the loop passes over: not the element's end tag, not the end of input,
  and a text that unescapes.\<close>

definition inner_event :: "xml_event \<Rightarrow> bool" where
  "inner_event e \<longleftrightarrow>
     e \<noteq> End ''definedName'' \<and> e \<noteq> Eof \<and> (case e of Text t \<Rightarrow> unescape t \<noteq> None | _ \<Rightarrow> True)"

text \<open>The text the loop hands to set_address: the unescaped text of the last text event,
  or the initial text when there is none.\<close>

fun last_text :: "string \<Rightarrow> xml_event list \<Rightarrow> string" where
  "last_text v [] = v"
| "last_text v (Text t # es) = last_text (the (unescape t)) es"
| "last_text v (e # es) = last_text v es"

section \<open>The owner invariant\<close>

text \<open>A literal fallback comes with no structured addresses (specification, section 3).\<close>

definition owner_inv :: "defined_name \<Rightarrow> bool" where
  "owner_inv d \<longleftrightarrow> (has_value (string_value d) \<longrightarrow> address d = [])"

section \<open>The splitter on printed addresses\<close>

text \<open>
  A state between tokens has no open quote, string or parenthesis. Characters other
  than the five the splitter inspects are copied to the current token.
\<close>

definition neutral :: "split_state \<Rightarrow> bool" where
  "neutral st \<longleftrightarrow> \<not> is_pass_s st \<and> \<not> is_pass_d st \<and> is_pass_b st = 0"

definition plain_char :: "char \<Rightarrow> bool" where
  "plain_char c \<longleftrightarrow> c \<notin> set ([CHR ''('', CHR '')'', apos, CHR 0x22, CHR '',''])"

section \<open>Lemmas: the splitter\<close>

lemma split_step_plain: "plain_char c \<Longrightarrow> split_step st c = st\<lparr>cur := cur st @ [c]\<rparr>"
  by (simp add: split_step_def plain_char_def)

lemma foldl_split_plain:
  "list_all plain_char s \<Longrightarrow> foldl split_step st s = st\<lparr>cur := cur st @ s\<rparr>"
  by (induction s arbitrary: st) (simp_all add: split_step_plain)

lemma split_step_in_quotes:
  "is_pass_s st \<Longrightarrow> c \<notin> set ([CHR ''('', CHR '')'', apos, CHR 0x22]) \<Longrightarrow>
   split_step st c = st\<lparr>cur := cur st @ [c]\<rparr>"
  by (simp add: split_step_def)

lemma foldl_split_quoted:
  assumes "is_pass_s st" "\<forall>c \<in> set n. c \<notin> set ''()\"''"
  shows "foldl split_step st (double_quotes n) = st\<lparr>cur := cur st @ double_quotes n\<rparr>"
  using assms
proof (induction n arbitrary: st)
  case Nil
  then show ?case by simp
next
  case (Cons c n)
  show ?case
  proof (cases "c = apos")
    case True
    with Cons show ?thesis by (simp add: split_step_def)
  next
    case False
    with Cons.prems have "split_step st c = st\<lparr>cur := cur st @ [c]\<rparr>"
      by (simp add: split_step_in_quotes)
    with False Cons show ?thesis by simp
  qed
qed

lemma range_str_plain: "list_all plain_char (range_str r)"
  by (auto simp: list_all_iff plain_char_def is_upper_def is_digit_def dest!: range_str_chars)

lemma word_plain: "is_word_char c \<Longrightarrow> plain_char c"
  by (auto simp: is_word_char_def plain_char_def is_upper_def is_digit_def)

lemma foldl_split_ptn2:
  assumes "canonical_address a" "neutral st"
  shows "foldl split_step st (get_address_ptn2 a) = st\<lparr>cur := cur st @ get_address_ptn2 a\<rparr>"
proof -
  let ?n = "sheet_name a" and ?R = "range_str (addr_range a)"
  have R: "list_all plain_char ?R" by (rule range_str_plain)
  have bang: "plain_char CHR ''!''" by (simp add: plain_char_def)
  consider "?n = []" | "?n \<noteq> []" "list_all is_word_char ?n" | "\<not> list_all is_word_char ?n" "?n \<noteq> []"
    by blast
  then show ?thesis
  proof cases
    case 1
    with R show ?thesis by (simp add: get_address_ptn2_def sheet_prefix_def foldl_split_plain)
  next
    case 2
    then have p: "list_all plain_char (?n @ ''!'' @ ?R)"
      using R bang by (auto simp: list_all_iff word_plain)
    have e: "get_address_ptn2 a = ?n @ ''!'' @ ?R"
      using 2 by (simp add: get_address_ptn2_def sheet_prefix_def)
    show ?thesis unfolding e using p by (rule foldl_split_plain)
  next
    case 3
    let ?st1 = "st\<lparr>is_pass_s := True, cur := cur st @ [apos]\<rparr>"
    have s1: "split_step st apos = ?st1"
      using assms(2) by (simp add: split_step_def neutral_def)
    have s2: "foldl split_step ?st1 (double_quotes ?n) = ?st1\<lparr>cur := cur ?st1 @ double_quotes ?n\<rparr>"
      using assms(1) by (intro foldl_split_quoted) (simp_all add: canonical_address_def)
    have s3: "split_step (?st1\<lparr>cur := cur ?st1 @ double_quotes ?n\<rparr>) apos =
              st\<lparr>cur := cur st @ [apos] @ double_quotes ?n @ [apos]\<rparr>"
      using assms(2) by (cases st) (simp add: split_step_def neutral_def)
    have "list_all plain_char (''!'' @ ?R)" using R bang by simp
    with 3 s1 s2 s3 show ?thesis
      by (simp add: get_address_ptn2_def sheet_prefix_def foldl_split_plain split_step_plain[OF bang])
  qed
qed

lemma foldl_split_join:
  assumes "ts \<noteq> []" "\<And>t st. t \<in> set ts \<Longrightarrow> neutral st \<Longrightarrow> foldl split_step st t = st\<lparr>cur := cur st @ t\<rparr>"
    and "neutral st" "cur st = []"
  shows "foldl split_step st (join '','' ts) = st\<lparr>result := result st @ butlast ts, cur := last ts\<rparr>"
  using assms
proof (induction ts arbitrary: st rule: induct_list012)
  case 1
  then show ?case by simp
next
  case (2 t)
  then show ?case by simp
next
  case (3 t u ts)
  let ?st1 = "st\<lparr>result := result st @ [t], cur := []\<rparr>"
  have "foldl split_step st t = st\<lparr>cur := t\<rparr>" using "3.prems" by simp
  moreover have "split_step (st\<lparr>cur := t\<rparr>) CHR '','' = ?st1"
    using "3.prems"(3) by (simp add: split_step_def neutral_def)
  moreover have "foldl split_step ?st1 (join '','' (u # ts)) =
                 ?st1\<lparr>result := result ?st1 @ butlast (u # ts), cur := last (u # ts)\<rparr>"
    using "3.prems" by (intro "3.IH"(2)) (simp_all add: neutral_def)
  ultimately show ?case by simp
qed

lemma split_str_join:
  assumes "\<And>t st. t \<in> set ts \<Longrightarrow> neutral st \<Longrightarrow> foldl split_step st t = st\<lparr>cur := cur st @ t\<rparr>"
    and "[] \<notin> set ts"
  shows "split_str (join '','' ts) = ts"
proof (cases "ts = []")
  case True
  then show ?thesis by (simp add: split_str_def split_init_def)
next
  case False
  have "foldl split_step split_init (join '','' ts) =
        split_init\<lparr>result := butlast ts, cur := last ts\<rparr>"
    using foldl_split_join[OF False assms(1)] by (simp add: split_init_def neutral_def)
  moreover have "last ts \<noteq> []" using False assms(2) last_in_set by metis
  ultimately show ?thesis using False by (simp add: split_str_def split_init_def)
qed

lemma split_str_join_last:
  assumes "\<And>t st. t \<in> set ts \<Longrightarrow> neutral st \<Longrightarrow> foldl split_step st t = st\<lparr>cur := cur st @ t\<rparr>"
    and "ts \<noteq> []" "last ts \<noteq> []"
  shows "split_str (join '','' ts) = ts"
proof -
  have "foldl split_step split_init (join '','' ts) =
        split_init\<lparr>result := butlast ts, cur := last ts\<rparr>"
    using foldl_split_join[OF assms(2) assms(1)] by (simp add: split_init_def neutral_def)
  then show ?thesis using assms(2,3) by (simp add: split_str_def split_init_def)
qed

lemma split_step_quoted:
  assumes "is_pass_s st" "c \<noteq> apos"
  shows "split_step st c =
         st\<lparr>is_pass_d := (if c = CHR 0x22 then \<not> is_pass_d st else is_pass_d st),
            is_pass_b := is_pass_b st + (if c = CHR ''('' then 1 else if c = CHR '')'' then - 1 else 0),
            cur := cur st @ [c]\<rparr>"
  using assms by (simp add: split_step_def)

lemma foldl_split_quoted_body:
  assumes "is_pass_s st"
  shows "foldl split_step st (double_quotes n) =
         st\<lparr>is_pass_d := (if odd (count_list n CHR 0x22) then \<not> is_pass_d st else is_pass_d st),
            is_pass_b := is_pass_b st + int (count_list n CHR ''('') - int (count_list n CHR '')''),
            cur := cur st @ double_quotes n\<rparr>"
  using assms
proof (induction n arbitrary: st)
  case Nil
  then show ?case by simp
next
  case (Cons c n)
  show ?case
  proof (cases "c = apos")
    case True
    have "foldl split_step st (double_quotes (c # n)) = foldl split_step (st\<lparr>cur := cur st @ [apos, apos]\<rparr>) (double_quotes n)"
    proof -
      have "split_step (split_step st apos) apos = st\<lparr>cur := cur st @ [apos, apos]\<rparr>"
        using Cons.prems by (cases st) (simp add: split_step_def)
      then show ?thesis using True by simp
    qed
    then show ?thesis using True Cons.prems Cons.IH[of "st\<lparr>cur := cur st @ [apos, apos]\<rparr>"] by simp
  next
    case False
    let ?st1 = "st\<lparr>is_pass_d := (if c = CHR 0x22 then \<not> is_pass_d st else is_pass_d st),
            is_pass_b := is_pass_b st + (if c = CHR ''('' then 1 else if c = CHR '')'' then - 1 else 0),
            cur := cur st @ [c]\<rparr>"
    have "foldl split_step st (double_quotes (c # n)) = foldl split_step ?st1 (double_quotes n)"
      using False split_step_quoted[OF Cons.prems False] by simp
    moreover have "is_pass_s ?st1" using Cons.prems by simp
    ultimately show ?thesis using False Cons.IH[of ?st1] by auto
  qed
qed

lemma foldl_split_nosplit:
  assumes "(is_pass_d st \<and> CHR 0x22 \<notin> set u) \<or> (0 < is_pass_b st \<and> CHR '')'' \<notin> set u)"
  shows "result (foldl split_step st u) = result st \<and> cur (foldl split_step st u) = cur st @ u"
  using assms
proof (induction u arbitrary: st)
  case Nil
  then show ?case by simp
next
  case (Cons c u)
  have "result (split_step st c) = result st \<and> cur (split_step st c) = cur st @ [c] \<and>
        ((is_pass_d (split_step st c) \<and> CHR 0x22 \<notin> set u) \<or>
         (0 < is_pass_b (split_step st c) \<and> CHR '')'' \<notin> set u))"
    using Cons.prems by (auto simp: split_step_def)
  then show ?case using Cons.IH[of "split_step st c"] by simp
qed

lemma foldl_split_quoted_prefix:
  assumes "sheet_name a \<noteq> []" "\<not> list_all is_word_char (sheet_name a)"
  shows "foldl split_step split_init (get_address_ptn2 a) =
         split_init\<lparr>is_pass_d := odd (count_list (sheet_name a) CHR 0x22),
                    is_pass_b := int (count_list (sheet_name a) CHR ''('') - int (count_list (sheet_name a) CHR '')''),
                    cur := get_address_ptn2 a\<rparr>"
proof -
  let ?n = "sheet_name a" and ?R = "range_str (addr_range a)"
  let ?st1 = "split_init\<lparr>is_pass_s := True, cur := [apos]\<rparr>"
  have e: "get_address_ptn2 a = [apos] @ double_quotes ?n @ [apos] @ CHR ''!'' # ?R"
    using assms by (simp add: get_address_ptn2_def sheet_prefix_def)
  have s1: "split_step split_init apos = ?st1" by (simp add: split_step_def split_init_def)
  have s2: "foldl split_step ?st1 (double_quotes ?n) =
            ?st1\<lparr>is_pass_d := odd (count_list ?n CHR 0x22),
                 is_pass_b := int (count_list ?n CHR ''('') - int (count_list ?n CHR '')''),
                 cur := [apos] @ double_quotes ?n\<rparr>"
    by (simp add: foldl_split_quoted_body split_init_def)
  have pl: "list_all plain_char (CHR ''!'' # ?R)" using range_str_plain by (simp add: plain_char_def)
  show ?thesis unfolding e
    using s1 s2 pl by (simp add: split_step_def foldl_split_plain split_init_def)
qed

section \<open>Lemmas: address text round trip\<close>

lemma get_address_ptn2_not_nil: "canonical_address a \<Longrightarrow> get_address_ptn2 a \<noteq> []"
  by (simp add: get_address_ptn2_def canonical_address_def range_str_not_nil)

lemma split_str_get_address:
  assumes "list_all canonical_address (address d)" "\<not> has_value (string_value d)"
  shows "split_str (get_address d) = map get_address_ptn2 (address d)"
proof -
  have "[] \<notin> set (map get_address_ptn2 (address d))"
    using assms(1) get_address_ptn2_not_nil by (fastforce simp: list_all_iff)
  with assms show ?thesis
    by (auto simp: get_address_def list_all_iff intro!: split_str_join foldl_split_ptn2)
qed

text \<open>C3: the comma splitter returns exactly the printed tokens of a list of canonical addresses joined by commas, commas inside quoted sheet names included.\<close>

theorem split_str_printed:
  assumes "list_all canonical_address as"
  shows "split_str (join '','' (map get_address_ptn2 as)) = map get_address_ptn2 as"
proof -
  have "[] \<notin> set (map get_address_ptn2 as)"
    using assms get_address_ptn2_not_nil by (fastforce simp: list_all_iff)
  with assms show ?thesis
    by (auto simp: list_all_iff intro!: split_str_join foldl_split_ptn2)
qed

lemma set_address_tokens_addresses:
  "list_all canonical_address as \<Longrightarrow>
   foldl set_address_token d (map get_address_ptn2 as) = d\<lparr>address := address d @ as\<rparr>"
proof (induction as arbitrary: d)
  case Nil
  then show ?case by simp
next
  case (Cons a as)
  then have "set_address_token d (get_address_ptn2 a) = d\<lparr>address := address d @ [a]\<rparr>"
    by (simp add: set_address_token_def is_address_ptn2 add_address_def address_set_address_ptn2)
  with Cons show ?case by simp
qed

text \<open>C2: reading back the text that get_address prints for a name whose addresses are canonical appends exactly those addresses to the name it is read into (set_address appends, it never clears).\<close>

theorem set_address_get_address:
  assumes "list_all canonical_address (address d)" "\<not> has_value (string_value d)"
  shows "set_address (get_address d) d0 = d0\<lparr>address := address d0 @ address d\<rparr>"
  using assms by (simp add: set_address_def split_str_get_address set_address_tokens_addresses)

section \<open>Lemmas: the owner invariant\<close>

text \<open>Every method other than set_address and add_address keeps the owner invariant.\<close>

lemma owner_inv_preserved:
  "owner_inv d \<Longrightarrow>
   owner_inv (set_name v d) \<and> owner_inv (set_local_sheet_id w d) \<and> owner_inv (set_sheet_name v d) \<and>
   owner_inv (set_string_value v d) \<and>
   owner_inv (adjustment_insert_coordinate d rc oc rr orr) \<and>
   owner_inv (adjustment_remove_coordinate d rc oc rr orr) \<and>
   owner_inv (snd (is_remove d sheet rc oc rr orr))"
  by (simp add: owner_inv_def set_name_def set_local_sheet_id_def set_sheet_name_def set_string_value_def
      adjustment_insert_coordinate_def adjustment_remove_coordinate_def is_remove_def Let_def)

lemma split_str_literal_then_printed:
  assumes "l \<noteq> []" "list_all plain_char l" "list_all canonical_address as"
  shows "split_str (join '','' (l # map get_address_ptn2 as)) = l # map get_address_ptn2 as"
proof (rule split_str_join)
  fix t st assume "t \<in> set (l # map get_address_ptn2 as)" "neutral st"
  then show "foldl split_step st t = st\<lparr>cur := cur st @ t\<rparr>"
    using assms(2,3) by (auto simp: list_all_iff foldl_split_plain foldl_split_ptn2)
next
  have "\<forall>a \<in> set as. get_address_ptn2 a \<noteq> []"
    using assms(3) get_address_ptn2_not_nil by (simp add: list_all_iff)
  then show "[] \<notin> set (l # map get_address_ptn2 as)"
    using assms(1) by (metis imageE list.set_map set_ConsD)
qed

lemma is_address_Nil [simp]: "\<not> is_address []"
  by (simp add: is_address_def split_sheet_def parse_range_def parse_coordinate_def take_dollar_def)

text \<open>C6: set_address breaks the owner invariant: on a comma-joined text whose first token is a plain literal that is no address, followed by printed canonical addresses, it stores the literal and pushes every address after it, so get_address prints only the literal.\<close>

theorem set_address_literal_then_address:
  assumes "l \<noteq> []" "list_all plain_char l" "\<not> is_address l" "list_all canonical_address as"
  shows "string_value (set_address (join '','' (l # map get_address_ptn2 as)) d) = Value l \<and>
         address (set_address (join '','' (l # map get_address_ptn2 as)) d) = as \<and>
         get_address (set_address (join '','' (l # map get_address_ptn2 as)) d) = l"
proof -
  have "set_address (join '','' (l # map get_address_ptn2 as)) d =
        foldl set_address_token (set_string_value l d) (map get_address_ptn2 as)"
    using split_str_literal_then_printed[OF assms(1,2,4)] assms(3)
    by (simp add: set_address_def set_address_token_def)
  also have "\<dots> = (set_string_value l d)\<lparr>address := as\<rparr>"
    using set_address_tokens_addresses[OF assms(4)] by (simp add: set_string_value_def)
  finally show ?thesis
    by (simp add: set_string_value_def set_value_def get_address_def get_value_str_def)
qed



lemma set_address_literal:
  "split_str v = [v] \<Longrightarrow> \<not> is_address v \<Longrightarrow> set_address v d = set_string_value v d"
  by (simp add: set_address_def set_address_token_def)

section \<open>Lemmas: the reader loop\<close>

lemma loop_last_text:
  "list_all inner_event evs \<Longrightarrow>
   set_attributes_loop v d (map Ev evs @ Ev (End ''definedName'') # rest) =
   Inr (set_address (last_text v evs) d, rest)"
proof (induction evs arbitrary: v)
  case Nil
  then show ?case by simp
next
  case (Cons e evs)
  then show ?case by (cases e) (auto simp: inner_event_def split: option.splits)
qed

text \<open>C7: when every event before the end tag of definedName is passed over, the read loop of the element stops right after that end tag and hands set_address exactly the unescaped text of the last text event, or the initial text when there is none.\<close>

theorem set_attributes_loop_run:
  assumes "list_all inner_event evs"
  shows "set_attributes_loop v d (map Ev evs @ Ev (End ''definedName'') # rest) =
         Inr (set_address (last_text v evs) d, rest)"
  using assms by (rule loop_last_text)



text \<open>C8: a definedName element whose end tag never comes panics (the source calls panic!) instead of returning a structural error.\<close>

theorem set_attributes_loop_truncated:
  assumes "End ''definedName'' \<notin> set evs"
  shows "\<exists>m. set_attributes_loop v d (map Ev evs) = Inl (Panic m)"
  using assms
proof (induction evs arbitrary: v)
  case Nil
  then show ?case by simp
next
  case (Cons e evs)
  then show ?case by (cases e) (auto split: option.splits)
qed

section \<open>Witnesses and examples\<close>

theorem set_address_get_address_witness:
  "let d = set_address (''Sheet1!$A$1:$B$2,'' @ [apos] @ ''O'' @ [apos, apos] @ ''Brien, Q'' @ [apos] @ ''!C3'')
             defined_name_default
   in list_all canonical_address (address d) \<and> \<not> has_value (string_value d) \<and>
      set_address (get_address d) defined_name_default = defined_name_default\<lparr>address := address d\<rparr>"
proof -
  let ?d = "set_address (''Sheet1!$A$1:$B$2,'' @ [apos] @ ''O'' @ [apos, apos] @ ''Brien, Q'' @ [apos] @ ''!C3'')
             defined_name_default"
  have h1: "list_all canonical_address (address ?d)" by code_simp
  have h2: "\<not> has_value (string_value ?d)" by code_simp
  show ?thesis
    using h1 h2 set_address_get_address[OF h1 h2, of defined_name_default]
    by (simp add: defined_name_default_def)
qed

theorem split_str_printed_witness:
  "list_all canonical_address
     (address (set_address (''A1,'' @ [apos] @ ''My, Sheet'' @ [apos] @ ''!B2:$C$3'') defined_name_default)) \<and>
   split_str (join '','' (map get_address_ptn2
     (address (set_address (''A1,'' @ [apos] @ ''My, Sheet'' @ [apos] @ ''!B2:$C$3'') defined_name_default)))) =
   map get_address_ptn2
     (address (set_address (''A1,'' @ [apos] @ ''My, Sheet'' @ [apos] @ ''!B2:$C$3'') defined_name_default))"
proof -
  have h: "list_all canonical_address
     (address (set_address (''A1,'' @ [apos] @ ''My, Sheet'' @ [apos] @ ''!B2:$C$3'') defined_name_default))"
    by code_simp
  show ?thesis using h split_str_printed[OF h] by blast
qed

text \<open>The example of the specification: a comma inside a quoted sheet name does not split.\<close>

theorem split_str_quoted_comma:
  "split_str (''A1,'' @ [apos] @ ''My, Sheet'' @ [apos] @ ''!B2:C3'') =
   [''A1'', [apos] @ ''My, Sheet'' @ [apos] @ ''!B2:C3'']"
  by code_simp

theorem set_attributes_loop_run_witness:
  "list_all inner_event [Start ''x'' [], Text ''Sheet1!$A$1'', End ''x'', Text ''B2''] \<and>
   set_attributes_loop [] defined_name_default
     (map Ev [Start ''x'' [], Text ''Sheet1!$A$1'', End ''x'', Text ''B2''] @ Ev (End ''definedName'') # []) =
   Inr (set_address ''B2'' defined_name_default, [])"
proof -
  have h: "list_all inner_event [Start ''x'' [], Text ''Sheet1!$A$1'', End ''x'', Text ''B2'']" by code_simp
  have "last_text [] [Start ''x'' [], Text ''Sheet1!$A$1'', End ''x'', Text ''B2''] = ''B2''" by code_simp
  then show ?thesis using h set_attributes_loop_run[OF h, of "[]" defined_name_default "[]"] by simp
qed



theorem set_attributes_loop_truncated_witness:
  "End ''definedName'' \<notin> set [Text ''A1''] \<and>
   (\<exists>m. set_attributes_loop [] defined_name_default (map Ev [Text ''A1'']) = Inl (Panic m))"
proof -
  have h: "End ''definedName'' \<notin> set [Text ''A1'']" by simp
  show ?thesis using h set_attributes_loop_truncated[OF h] by blast
qed

section \<open>Structural edits and the findings of the model\<close>

text \<open>C9: removing the lines just inserted restores a defined name: is_remove drops none of its addresses and adjustment_remove_coordinate undoes adjustment_insert_coordinate, on both axes.\<close>

theorem remove_after_insert:
  "snd (is_remove (adjustment_insert_coordinate d rc oc rr orr) sheet rc oc rr orr) =
     adjustment_insert_coordinate d rc oc rr orr \<and>
   adjustment_remove_coordinate (adjustment_insert_coordinate d rc oc rr orr) rc oc rr orr = d"
  by (simp add: is_remove_def adjustment_insert_coordinate_def adjustment_remove_coordinate_def
      address_is_remove_def Let_def o_def)

text \<open>C10: is_remove reports the defined name empty exactly when it holds no literal and every address it has lies on the edited sheet inside the removed span.\<close>

theorem is_remove_reports_empty:
  "fst (is_remove d sheet rc oc rr orr) \<longleftrightarrow>
   \<not> has_value (string_value d) \<and> (\<forall>a \<in> set (address d). address_is_remove a sheet rc oc rr orr)"
  by (auto simp: is_remove_def Let_def filter_empty_conv)

theorem is_remove_reports_empty_witness:
  "\<not> has_value (string_value (set_address ''S!C4,S!D4:E4'' defined_name_default)) \<and>
   list_all (\<lambda>a. address_is_remove a ''S'' 0 0 4 1) (address (set_address ''S!C4,S!D4:E4'' defined_name_default)) \<and>
   fst (is_remove (set_address ''S!C4,S!D4:E4'' defined_name_default) ''S'' 0 0 4 1)"
proof -
  have h1: "\<not> has_value (string_value (set_address ''S!C4,S!D4:E4'' defined_name_default))" by code_simp
  have h2: "list_all (\<lambda>a. address_is_remove a ''S'' 0 0 4 1)
              (address (set_address ''S!C4,S!D4:E4'' defined_name_default))" by code_simp
  then have "\<forall>a \<in> set (address (set_address ''S!C4,S!D4:E4'' defined_name_default)). address_is_remove a ''S'' 0 0 4 1"
    by (simp add: list_all_iff)
  with h1 h2 show ?thesis
    using is_remove_reports_empty[of "set_address ''S!C4,S!D4:E4'' defined_name_default" "''S''" 0 0 4 1]
    by blast
qed

text \<open>The example of the specification: removing row 4 of sheet S drops the address S!C4 and reports the name, which had only it, as empty.\<close>

theorem is_remove_spec_example:
  "is_remove (set_address ''S!C4'' defined_name_default) ''S'' 0 0 4 1 = (True, defined_name_default)"
  by code_simp

text \<open>The example of the specification: inserting two rows at row 3 moves S!B5 to S!B7 and leaves S!B2 alone.\<close>

theorem adjustment_insert_spec_example:
  "get_address (adjustment_insert_coordinate (set_address ''S!B5,S!B2'' defined_name_default) 0 0 3 2) = ''S!B7,S!B2''"
  by code_simp

text \<open>The adjustment methods take no sheet: inserting rows for sheet S also moves the address of sheet Other in the same name.\<close>

theorem adjustment_insert_other_sheet:
  "get_address (adjustment_insert_coordinate (set_address ''S!B5,Other!B5'' defined_name_default) 0 0 3 2) =
   ''S!B7,Other!B7''"
  by code_simp

theorem set_address_literal_then_address_witness:
  "''Foo'' \<noteq> [] \<and> list_all plain_char ''Foo'' \<and> \<not> is_address ''Foo'' \<and> list_all canonical_address [\<lparr>sheet_name = [], addr_range = \<lparr>coordinate_start = \<lparr>col_num = 1, col_lock = False, row_num = 1, row_lock = False\<rparr>, coordinate_end = None\<rparr>\<rparr>] \<and>
   string_value (set_address (join '','' (''Foo'' # map get_address_ptn2 [\<lparr>sheet_name = [], addr_range = \<lparr>coordinate_start = \<lparr>col_num = 1, col_lock = False, row_num = 1, row_lock = False\<rparr>, coordinate_end = None\<rparr>\<rparr>])) defined_name_default) = Value ''Foo'' \<and>
   address (set_address (join '','' (''Foo'' # map get_address_ptn2 [\<lparr>sheet_name = [], addr_range = \<lparr>coordinate_start = \<lparr>col_num = 1, col_lock = False, row_num = 1, row_lock = False\<rparr>, coordinate_end = None\<rparr>\<rparr>])) defined_name_default) = [\<lparr>sheet_name = [], addr_range = \<lparr>coordinate_start = \<lparr>col_num = 1, col_lock = False, row_num = 1, row_lock = False\<rparr>, coordinate_end = None\<rparr>\<rparr>] \<and>
   get_address (set_address (join '','' (''Foo'' # map get_address_ptn2 [\<lparr>sheet_name = [], addr_range = \<lparr>coordinate_start = \<lparr>col_num = 1, col_lock = False, row_num = 1, row_lock = False\<rparr>, coordinate_end = None\<rparr>\<rparr>])) defined_name_default) = ''Foo''"
proof -
  have h1: "''Foo'' \<noteq> []" by simp
  have h2: "list_all plain_char ''Foo''" by code_simp
  have h3: "\<not> is_address ''Foo''" by code_simp
  have h4: "list_all canonical_address [\<lparr>sheet_name = [], addr_range = \<lparr>coordinate_start = \<lparr>col_num = 1, col_lock = False, row_num = 1, row_lock = False\<rparr>, coordinate_end = None\<rparr>\<rparr>]" by code_simp
  show ?thesis using h1 h2 h3 h4 set_address_literal_then_address[OF h1 h2 h3 h4, of defined_name_default] by blast
qed

text \<open>C13: an empty token between commas becomes an empty literal fallback: on printed canonical addresses as, an empty token and printed canonical addresses bs, the addresses of as are discarded, those of bs are kept, and get_address prints the empty text.\<close>

theorem set_address_empty_token:
  assumes "list_all canonical_address as" "list_all canonical_address bs" "bs \<noteq> []"
  shows "get_address (set_address (join '','' (map get_address_ptn2 as @ [] # map get_address_ptn2 bs)) d) = [] \<and>
         address (set_address (join '','' (map get_address_ptn2 as @ [] # map get_address_ptn2 bs)) d) = bs"
proof -
  let ?ts = "map get_address_ptn2 as @ [] # map get_address_ptn2 bs"
  have "split_str (join '','' ?ts) = ?ts"
  proof (rule split_str_join_last)
    fix t st assume "t \<in> set ?ts" "neutral st"
    then show "foldl split_step st t = st\<lparr>cur := cur st @ t\<rparr>"
      using assms(1,2) by (auto simp: list_all_iff foldl_split_ptn2)
  next
    show "?ts \<noteq> []" by simp
    show "last ?ts \<noteq> []" using assms(2,3) get_address_ptn2_not_nil
      by (cases bs rule: rev_cases) (auto simp: list_all_iff)
  qed
  then have "set_address (join '','' ?ts) d =
     foldl set_address_token (set_string_value [] (foldl set_address_token d (map get_address_ptn2 as)))
       (map get_address_ptn2 bs)"
    by (simp add: set_address_def set_address_token_def)
  also have "\<dots> = (set_string_value [] d)\<lparr>address := bs\<rparr>"
    using set_address_tokens_addresses[OF assms(1)] set_address_tokens_addresses[OF assms(2)]
    by (simp add: set_string_value_def)
  finally show ?thesis
    by (simp add: set_string_value_def set_value_def get_address_def get_value_str_def)
qed

theorem set_address_empty_token_witness:
  "list_all canonical_address [\<lparr>sheet_name = [], addr_range = \<lparr>coordinate_start = \<lparr>col_num = 1, col_lock = False, row_num = 1, row_lock = False\<rparr>, coordinate_end = None\<rparr>\<rparr>] \<and> list_all canonical_address [\<lparr>sheet_name = [], addr_range = \<lparr>coordinate_start = \<lparr>col_num = 2, col_lock = False, row_num = 1, row_lock = False\<rparr>, coordinate_end = None\<rparr>\<rparr>] \<and> [\<lparr>sheet_name = [], addr_range = \<lparr>coordinate_start = \<lparr>col_num = 2, col_lock = False, row_num = 1, row_lock = False\<rparr>, coordinate_end = None\<rparr>\<rparr>] \<noteq> [] \<and>
   get_address (set_address (join '','' (map get_address_ptn2 [\<lparr>sheet_name = [], addr_range = \<lparr>coordinate_start = \<lparr>col_num = 1, col_lock = False, row_num = 1, row_lock = False\<rparr>, coordinate_end = None\<rparr>\<rparr>] @ [] # map get_address_ptn2 [\<lparr>sheet_name = [], addr_range = \<lparr>coordinate_start = \<lparr>col_num = 2, col_lock = False, row_num = 1, row_lock = False\<rparr>, coordinate_end = None\<rparr>\<rparr>])) defined_name_default) = [] \<and>
   address (set_address (join '','' (map get_address_ptn2 [\<lparr>sheet_name = [], addr_range = \<lparr>coordinate_start = \<lparr>col_num = 1, col_lock = False, row_num = 1, row_lock = False\<rparr>, coordinate_end = None\<rparr>\<rparr>] @ [] # map get_address_ptn2 [\<lparr>sheet_name = [], addr_range = \<lparr>coordinate_start = \<lparr>col_num = 2, col_lock = False, row_num = 1, row_lock = False\<rparr>, coordinate_end = None\<rparr>\<rparr>])) defined_name_default) = [\<lparr>sheet_name = [], addr_range = \<lparr>coordinate_start = \<lparr>col_num = 2, col_lock = False, row_num = 1, row_lock = False\<rparr>, coordinate_end = None\<rparr>\<rparr>]"
proof -
  have h1: "list_all canonical_address [\<lparr>sheet_name = [], addr_range = \<lparr>coordinate_start = \<lparr>col_num = 1, col_lock = False, row_num = 1, row_lock = False\<rparr>, coordinate_end = None\<rparr>\<rparr>]" by code_simp
  have h2: "list_all canonical_address [\<lparr>sheet_name = [], addr_range = \<lparr>coordinate_start = \<lparr>col_num = 2, col_lock = False, row_num = 1, row_lock = False\<rparr>, coordinate_end = None\<rparr>\<rparr>]" by code_simp
  have h3: "[\<lparr>sheet_name = [], addr_range = \<lparr>coordinate_start = \<lparr>col_num = 2, col_lock = False, row_num = 1, row_lock = False\<rparr>, coordinate_end = None\<rparr>\<rparr>] \<noteq> []" by simp
  show ?thesis using h1 h2 h3 set_address_empty_token[OF h1 h2 h3, of defined_name_default] by blast
qed



text \<open>C14: a double quote inside a quoted sheet name toggles the splitter's string state: when the sheet name holds an odd number of double quotes and no parenthesis, no comma of any text without double quotes that follows the printed address splits.\<close>

theorem split_str_double_quote_in_sheet:
  assumes "odd (count_list (sheet_name a) CHR 0x22)"
    and "CHR ''('' \<notin> set (sheet_name a)" "CHR '')'' \<notin> set (sheet_name a)" "CHR 0x22 \<notin> set u"
  shows "split_str (get_address_ptn2 a @ u) = [get_address_ptn2 a @ u]"
proof -
  have "count_list (sheet_name a) CHR 0x22 \<noteq> 0" using assms(1) by (metis odd_pos neq0_conv)
  then have m: "CHR 0x22 \<in> set (sheet_name a)" by (simp add: count_list_0_iff)
  have q: "sheet_name a \<noteq> []" "\<not> list_all is_word_char (sheet_name a)"
    using m unfolding list_all_iff by (auto intro!: bexI[of _ "CHR 0x22"])
  let ?st = "foldl split_step split_init (get_address_ptn2 a)"
  have st: "is_pass_d ?st" "result ?st = []" "cur ?st = get_address_ptn2 a"
    using foldl_split_quoted_prefix[OF q] assms(1) by (simp_all add: split_init_def)
  then have "result (foldl split_step ?st u) = [] \<and> cur (foldl split_step ?st u) = get_address_ptn2 a @ u"
    using foldl_split_nosplit[of ?st u] assms(4) by simp
  moreover have "get_address_ptn2 a \<noteq> []" using q by (simp add: get_address_ptn2_def sheet_prefix_def)
  ultimately show ?thesis by (simp add: split_str_def Let_def)
qed

theorem split_str_double_quote_in_sheet_witness:
  "odd (count_list (sheet_name \<lparr>sheet_name = ''a'' @ [CHR 0x22] @ ''b'', addr_range = \<lparr>coordinate_start = \<lparr>col_num = 1, col_lock = False, row_num = 1, row_lock = False\<rparr>, coordinate_end = None\<rparr>\<rparr>) CHR 0x22) \<and> CHR ''('' \<notin> set (sheet_name \<lparr>sheet_name = ''a'' @ [CHR 0x22] @ ''b'', addr_range = \<lparr>coordinate_start = \<lparr>col_num = 1, col_lock = False, row_num = 1, row_lock = False\<rparr>, coordinate_end = None\<rparr>\<rparr>) \<and>
   CHR '')'' \<notin> set (sheet_name \<lparr>sheet_name = ''a'' @ [CHR 0x22] @ ''b'', addr_range = \<lparr>coordinate_start = \<lparr>col_num = 1, col_lock = False, row_num = 1, row_lock = False\<rparr>, coordinate_end = None\<rparr>\<rparr>) \<and> CHR 0x22 \<notin> set '',B2'' \<and>
   split_str (get_address_ptn2 \<lparr>sheet_name = ''a'' @ [CHR 0x22] @ ''b'', addr_range = \<lparr>coordinate_start = \<lparr>col_num = 1, col_lock = False, row_num = 1, row_lock = False\<rparr>, coordinate_end = None\<rparr>\<rparr> @ '',B2'') = [get_address_ptn2 \<lparr>sheet_name = ''a'' @ [CHR 0x22] @ ''b'', addr_range = \<lparr>coordinate_start = \<lparr>col_num = 1, col_lock = False, row_num = 1, row_lock = False\<rparr>, coordinate_end = None\<rparr>\<rparr> @ '',B2'']"
proof -
  have h1: "odd (count_list (sheet_name \<lparr>sheet_name = ''a'' @ [CHR 0x22] @ ''b'', addr_range = \<lparr>coordinate_start = \<lparr>col_num = 1, col_lock = False, row_num = 1, row_lock = False\<rparr>, coordinate_end = None\<rparr>\<rparr>) CHR 0x22)" by simp
  have h2: "CHR ''('' \<notin> set (sheet_name \<lparr>sheet_name = ''a'' @ [CHR 0x22] @ ''b'', addr_range = \<lparr>coordinate_start = \<lparr>col_num = 1, col_lock = False, row_num = 1, row_lock = False\<rparr>, coordinate_end = None\<rparr>\<rparr>)" by simp
  have h3: "CHR '')'' \<notin> set (sheet_name \<lparr>sheet_name = ''a'' @ [CHR 0x22] @ ''b'', addr_range = \<lparr>coordinate_start = \<lparr>col_num = 1, col_lock = False, row_num = 1, row_lock = False\<rparr>, coordinate_end = None\<rparr>\<rparr>)" by simp
  have h4: "CHR 0x22 \<notin> set '',B2''" by simp
  show ?thesis using h1 h2 h3 h4 split_str_double_quote_in_sheet[OF h1 h2 h3 h4] by blast
qed



text \<open>C15: a parenthesis inside a quoted sheet name is counted by the splitter: when the sheet name holds more opening than closing parentheses, no comma of any text without a closing parenthesis that follows the printed address splits.\<close>

theorem split_str_paren_in_sheet:
  assumes "count_list (sheet_name a) CHR '')'' < count_list (sheet_name a) CHR ''(''"
    and "CHR '')'' \<notin> set u"
  shows "split_str (get_address_ptn2 a @ u) = [get_address_ptn2 a @ u]"
proof -
  have "count_list (sheet_name a) CHR ''('' \<noteq> 0" using assms(1) by simp
  then have m: "CHR ''('' \<in> set (sheet_name a)" by (simp add: count_list_0_iff)
  have q: "sheet_name a \<noteq> []" "\<not> list_all is_word_char (sheet_name a)"
    using m unfolding list_all_iff by (auto intro!: bexI[of _ "CHR ''(''"])
  let ?st = "foldl split_step split_init (get_address_ptn2 a)"
  have st: "0 < is_pass_b ?st" "result ?st = []" "cur ?st = get_address_ptn2 a"
    using foldl_split_quoted_prefix[OF q] assms(1) by (simp_all add: split_init_def)
  then have "result (foldl split_step ?st u) = [] \<and> cur (foldl split_step ?st u) = get_address_ptn2 a @ u"
    using foldl_split_nosplit[of ?st u] assms(2) by simp
  moreover have "get_address_ptn2 a \<noteq> []" using q by (simp add: get_address_ptn2_def sheet_prefix_def)
  ultimately show ?thesis by (simp add: split_str_def Let_def)
qed

theorem split_str_paren_in_sheet_witness:
  "count_list (sheet_name \<lparr>sheet_name = ''Q(1'', addr_range = \<lparr>coordinate_start = \<lparr>col_num = 1, col_lock = False, row_num = 1, row_lock = False\<rparr>, coordinate_end = None\<rparr>\<rparr>) CHR '')'' < count_list (sheet_name \<lparr>sheet_name = ''Q(1'', addr_range = \<lparr>coordinate_start = \<lparr>col_num = 1, col_lock = False, row_num = 1, row_lock = False\<rparr>, coordinate_end = None\<rparr>\<rparr>) CHR ''('' \<and> CHR '')'' \<notin> set '',B2'' \<and>
   split_str (get_address_ptn2 \<lparr>sheet_name = ''Q(1'', addr_range = \<lparr>coordinate_start = \<lparr>col_num = 1, col_lock = False, row_num = 1, row_lock = False\<rparr>, coordinate_end = None\<rparr>\<rparr> @ '',B2'') = [get_address_ptn2 \<lparr>sheet_name = ''Q(1'', addr_range = \<lparr>coordinate_start = \<lparr>col_num = 1, col_lock = False, row_num = 1, row_lock = False\<rparr>, coordinate_end = None\<rparr>\<rparr> @ '',B2'']"
proof -
  have h1: "count_list (sheet_name \<lparr>sheet_name = ''Q(1'', addr_range = \<lparr>coordinate_start = \<lparr>col_num = 1, col_lock = False, row_num = 1, row_lock = False\<rparr>, coordinate_end = None\<rparr>\<rparr>) CHR '')'' < count_list (sheet_name \<lparr>sheet_name = ''Q(1'', addr_range = \<lparr>coordinate_start = \<lparr>col_num = 1, col_lock = False, row_num = 1, row_lock = False\<rparr>, coordinate_end = None\<rparr>\<rparr>) CHR ''(''" by simp
  have h2: "CHR '')'' \<notin> set '',B2''" by simp
  show ?thesis using h1 h2 split_str_paren_in_sheet[OF h1 h2] by blast
qed



section \<open>Writer, literals and edits\<close>

text \<open>C22: write_to emits the start tag, the escaped address text and the end tag; the name attribute always, the localSheetId attribute exactly when it is set.\<close>

theorem write_to_attribute_omission:
  "\<exists>as. write_to d [] = [Start ''definedName'' as, Text (escape_text (get_address d)), End ''definedName''] \<and>
        get_attribute as ''name'' = Some (get_name d) \<and>
        (get_attribute as ''localSheetId'' \<noteq> None \<longleftrightarrow> has_value (local_sheet_id d))"
  by (simp add: write_to_def write_start_tag_def write_text_node_def write_end_tag_def get_attribute_def)

text \<open>C23: a text that the splitter keeps whole and that is no address, such as a formula whose commas are inside parentheses, becomes the literal fallback and is printed back unchanged.\<close>

theorem set_address_literal_roundtrip:
  assumes "split_str v = [v]" "\<not> is_address v"
  shows "get_address (set_address v d) = v \<and> address (set_address v d) = []"
  using assms by (simp add: set_address_literal set_string_value_def get_address_def get_value_str_def set_value_def)

theorem set_address_literal_roundtrip_witness:
  "split_str ''SUM(A1,B1)'' = [''SUM(A1,B1)''] \<and> \<not> is_address ''SUM(A1,B1)'' \<and>
   get_address (set_address ''SUM(A1,B1)'' defined_name_default) = ''SUM(A1,B1)'' \<and>
   address (set_address ''SUM(A1,B1)'' defined_name_default) = []"
proof -
  have h1: "split_str ''SUM(A1,B1)'' = [''SUM(A1,B1)'']" by code_simp
  have h2: "\<not> is_address ''SUM(A1,B1)''" by code_simp
  show ?thesis using h1 h2 set_address_literal_roundtrip[OF h1 h2, of defined_name_default] by blast
qed

text \<open>C24: double quotes outside quotes and parentheses are dropped by the splitter: a plain text that is no address, wrapped in double quotes, is stored as the literal fallback without them and printed without them.\<close>

theorem set_address_toplevel_double_quotes:
  assumes "body \<noteq> []" "list_all plain_char body" "\<not> is_address body"
  shows "get_address (set_address (CHR 0x22 # body @ [CHR 0x22]) d) = body \<and>
         address (set_address (CHR 0x22 # body @ [CHR 0x22]) d) = []"
proof -
  let ?st1 = "split_init\<lparr>is_pass_d := True\<rparr>"
  have s1: "split_step split_init (CHR 0x22) = ?st1" by (simp add: split_step_def split_init_def)
  have s2: "foldl split_step ?st1 body = ?st1\<lparr>cur := body\<rparr>"
    using foldl_split_plain[OF assms(2)] by (simp add: split_init_def)
  have s3: "split_step (?st1\<lparr>cur := body\<rparr>) (CHR 0x22) = split_init\<lparr>cur := body\<rparr>"
    by (simp add: split_step_def split_init_def)
  have "split_str (CHR 0x22 # body @ [CHR 0x22]) = [body]"
    using s1 s2 s3 assms(1) by (simp add: split_str_def split_init_def)
  then have "set_address (CHR 0x22 # body @ [CHR 0x22]) d = set_string_value body d"
    using assms(3) by (simp add: set_address_def set_address_token_def)
  then show ?thesis
    by (simp add: set_string_value_def set_value_def get_address_def get_value_str_def)
qed

theorem set_address_toplevel_double_quotes_witness:
  "''abc'' \<noteq> [] \<and> list_all plain_char ''abc'' \<and> \<not> is_address ''abc'' \<and>
   get_address (set_address (CHR 0x22 # ''abc'' @ [CHR 0x22]) defined_name_default) = ''abc'' \<and>
   address (set_address (CHR 0x22 # ''abc'' @ [CHR 0x22]) defined_name_default) = []"
proof -
  have h1: "''abc'' \<noteq> []" by simp
  have h2: "list_all plain_char ''abc''" by code_simp
  have h3: "\<not> is_address ''abc''" by code_simp
  show ?thesis using h1 h2 h3 set_address_toplevel_double_quotes[OF h1 h2 h3, of defined_name_default] by blast
qed



text \<open>C25: reading then printing is the identity on reference text in printed form: for
  comma-separated tokens each of the form \<open>[sheet!][$]COL[$]ROW[:[$]COL[$]ROW]\<close> (rows
  without leading zeros, a sheet that is a word or a quoted name with doubled apostrophes),
  \<open>get_address\<close> after \<open>set_address\<close> on a fresh defined name returns the text unchanged.\<close>

theorem set_address_canonical_text:
  assumes "list_all canonical_token ts"
  shows "get_address (set_address (join '','' ts) defined_name_default) = join '','' ts"
proof -
  obtain as where as: "list_all canonical_address as" "map get_address_ptn2 as = ts"
    using list_all_ex_map[of canonical_address get_address_ptn2 ts] assms canonical_token_printed
    by (auto simp: list_all_iff)
  let ?d = "defined_name_default\<lparr>address := as\<rparr>"
  have nv: "\<not> has_value (string_value ?d)" by (simp add: defined_name_default_def has_value_def)
  have g: "get_address ?d = join '','' ts" using nv as(2) by (simp add: get_address_def)
  have "split_str (join '','' ts) = map get_address_ptn2 as"
    using split_str_get_address[of ?d] as(1) nv g by simp
  then have "set_address (join '','' ts) defined_name_default = ?d"
    using set_address_tokens_addresses[OF as(1), of defined_name_default]
    by (simp add: set_address_def defined_name_default_def)
  then show ?thesis using g by simp
qed

theorem set_address_canonical_text_witness:
  "list_all canonical_token [''Sheet1!$A$1:$B$2'', ''C3'', [apos] @ ''Q 1'' @ [apos] @ ''!B2''] \<and>
   get_address (set_address (''Sheet1!$A$1:$B$2,C3,'' @ [apos] @ ''Q 1'' @ [apos] @ ''!B2'')
     defined_name_default) = ''Sheet1!$A$1:$B$2,C3,'' @ [apos] @ ''Q 1'' @ [apos] @ ''!B2''"
  using set_address_canonical_text[of "[''Sheet1!$A$1:$B$2'', ''C3'', [apos] @ ''Q 1'' @ [apos] @ ''!B2'']"]
  by code_simp

section \<open>The name is untouched by the address text\<close>

lemma set_address_token_name [simp]: "name (set_address_token d v) = name d"
  by (simp add: set_address_token_def add_address_def set_string_value_def)

lemma foldl_set_address_token_name: "name (foldl set_address_token d vs) = name d"
  by (induction vs arbitrary: d) simp_all

lemma set_address_name [simp]: "name (set_address v d) = name d"
  by (simp add: set_address_def foldl_set_address_token_name)

end
