(* ===== verification/DefinedNameOps.thy ===== *)
theory DefinedNameOps
  imports DefinedName
begin

text \<open>
  Sequences of calls on one defined name: the operations of \<open>defined_name.rs\<close> that change
  the struct, as a datatype of calls and a step function that runs one call, folded over
  a list of calls. Lemmas: every call other than \<open>set_address\<close>, \<open>add_address\<close> and the
  mutable loan of the address vector keeps the owner invariant, so every sequence of
  such calls does (C5); each of the three excluded calls can break it. The reader
  \<open>set_attributes\<close> is not a call here: it ends in \<open>set_address\<close>, one of the excluded
  calls, and is modelled with the reader loop in \<open>DefinedName\<close>.
\<close>

datatype dn_op =
    SetName string
  | SetAddress string
  | AddAddress string
  | SetStringValue string
  | SetLocalSheetId u32
  | SetSheetName string
  | AdjustInsert nat nat nat nat
  | AdjustRemove nat nat nat nat
  | IsRemove string nat nat nat nat
  | AddressObjMut "address list \<Rightarrow> address list"

primrec dn_step :: "dn_op \<Rightarrow> defined_name \<Rightarrow> defined_name" where
  "dn_step (SetName v) d = set_name v d"
| "dn_step (SetAddress v) d = set_address v d"
| "dn_step (AddAddress v) d = add_address v d"
| "dn_step (SetStringValue v) d = set_string_value v d"
| "dn_step (SetLocalSheetId w) d = set_local_sheet_id w d"
| "dn_step (SetSheetName v) d = set_sheet_name v d"
| "dn_step (AdjustInsert rc oc rr orr) d = adjustment_insert_coordinate d rc oc rr orr"
| "dn_step (AdjustRemove rc oc rr orr) d = adjustment_remove_coordinate d rc oc rr orr"
| "dn_step (IsRemove sheet rc oc rr orr) d = snd (is_remove d sheet rc oc rr orr)"
| "dn_step (AddressObjMut f) d = get_address_obj_mut f d"

definition dn_run :: "dn_op list \<Rightarrow> defined_name \<Rightarrow> defined_name" where
  "dn_run ops d = foldl (\<lambda>d op. dn_step op d) d ops"

primrec keeps_owner :: "dn_op \<Rightarrow> bool" where
  "keeps_owner (SetName v) = True"
| "keeps_owner (SetAddress v) = False"
| "keeps_owner (AddAddress v) = False"
| "keeps_owner (SetStringValue v) = True"
| "keeps_owner (SetLocalSheetId w) = True"
| "keeps_owner (SetSheetName v) = True"
| "keeps_owner (AdjustInsert rc oc rr orr) = True"
| "keeps_owner (AdjustRemove rc oc rr orr) = True"
| "keeps_owner (IsRemove sheet rc oc rr orr) = True"
| "keeps_owner (AddressObjMut f) = False"

section \<open>Lemmas\<close>

lemma dn_run_simps [simp]:
  "dn_run [] d = d"
  "dn_run (op # ops) d = dn_run ops (dn_step op d)"
  by (simp_all add: dn_run_def)

lemma dn_step_owner_inv: "keeps_owner op \<Longrightarrow> owner_inv d \<Longrightarrow> owner_inv (dn_step op d)"
  by (cases op) (simp_all add: owner_inv_preserved)

section \<open>The owner invariant along sequences of calls\<close>

text \<open>C5: every sequence of calls on a defined name that avoids set_address, add_address and
  the mutable loan of the address vector keeps the owner invariant that a literal fallback
  comes with no addresses.\<close>

theorem dn_run_owner_inv:
  assumes "list_all keeps_owner ops" "owner_inv d"
  shows "owner_inv (dn_run ops d)"
  using assms by (induction ops arbitrary: d) (simp_all add: dn_step_owner_inv)

theorem dn_run_owner_inv_witness:
  "list_all keeps_owner [SetName ''N'', SetStringValue ''X'', AdjustInsert 0 0 3 2, IsRemove ''S'' 0 0 3 2] \<and>
   owner_inv (set_address ''S!A1'' defined_name_default) \<and>
   owner_inv (dn_run [SetName ''N'', SetStringValue ''X'', AdjustInsert 0 0 3 2, IsRemove ''S'' 0 0 3 2]
     (set_address ''S!A1'' defined_name_default))"
proof -
  have h: "owner_inv (set_address ''S!A1'' defined_name_default)" by code_simp
  show ?thesis
    using dn_run_owner_inv[OF _ h, of "[SetName ''N'', SetStringValue ''X'', AdjustInsert 0 0 3 2, IsRemove ''S'' 0 0 3 2]"] h
    by simp
qed

lemma excluded_calls_break_owner_inv:
  "\<not> owner_inv (dn_run [SetStringValue ''X'', AddAddress ''A1''] defined_name_default)"
  "\<not> owner_inv (dn_run [SetStringValue ''X'', AddressObjMut (\<lambda>as. as @ [address_default])] defined_name_default)"
  "\<not> owner_inv (dn_run [SetAddress ''X,A1''] defined_name_default)"
  by code_simp+

end
