(* ===== verification/RefAdjust.thy ===== *)
theory RefAdjust
  imports DefinedName
begin

text \<open>
  The abstract contract of the Reference Adjuster (specification, section 4.2) and the
  refinement of it by the defined name's methods. The abstract owner is the tagged
  variant the specification recommends (section 9): a literal, or a list of references.
  One abstract edit adjusts, on one axis, every coordinate of the references on the edited
  sheet, drops a reference all of whose corners fall in a removed span, and reports the
  owner gone when no reference is left. The concrete side is the protocol of the
  container that owns the name (the worksheet's row and column edits, not among the
  sources): \<open>is_remove\<close> first, then \<open>adjustment_remove_coordinate\<close>; for an insert,
  \<open>adjustment_insert_coordinate\<close> alone.
\<close>

datatype axis = RowAxis | ColAxis

datatype edit_mode = Insert | Remove

datatype owner = Literal string | References "address list"

section \<open>The abstract edit\<close>

text \<open>One coordinate; \<open>None\<close> is "inside the removed span".\<close>

definition spec_coord :: "edit_mode \<Rightarrow> nat \<Rightarrow> nat \<Rightarrow> nat \<Rightarrow> nat option" where
  "spec_coord mode at delta c =
     (case mode of
        Insert \<Rightarrow> Some (if at \<le> c then c + delta else c)
      | Remove \<Rightarrow> (if c < at then Some c else if c < at + delta then None else Some (c - delta)))"

definition axis_value :: "axis \<Rightarrow> coordinate \<Rightarrow> nat" where
  "axis_value ax c = (case ax of RowAxis \<Rightarrow> row_num c | ColAxis \<Rightarrow> col_num c)"

definition axis_update :: "axis \<Rightarrow> nat \<Rightarrow> coordinate \<Rightarrow> coordinate" where
  "axis_update ax n c = (case ax of RowAxis \<Rightarrow> c\<lparr>row_num := n\<rparr> | ColAxis \<Rightarrow> c\<lparr>col_num := n\<rparr>)"

text \<open>A corner of a kept reference that fell in the span is marked invalid with 0.\<close>

definition spec_corner :: "edit_mode \<Rightarrow> axis \<Rightarrow> nat \<Rightarrow> nat \<Rightarrow> coordinate \<Rightarrow> coordinate" where
  "spec_corner mode ax at delta c =
     axis_update ax (case spec_coord mode at delta (axis_value ax c) of None \<Rightarrow> 0 | Some n \<Rightarrow> n) c"

definition corner_gone :: "edit_mode \<Rightarrow> axis \<Rightarrow> nat \<Rightarrow> nat \<Rightarrow> coordinate \<Rightarrow> bool" where
  "corner_gone mode ax at delta c \<longleftrightarrow> spec_coord mode at delta (axis_value ax c) = None"

definition spec_adjust_address ::
  "string \<Rightarrow> axis \<Rightarrow> nat \<Rightarrow> nat \<Rightarrow> edit_mode \<Rightarrow> address \<Rightarrow> address option" where
  "spec_adjust_address sheet ax at delta mode a =
     (if sheet_name a \<noteq> sheet then Some a
      else
        (let r = addr_range a in
         if corner_gone mode ax at delta (coordinate_start r) \<and>
            (case coordinate_end r of None \<Rightarrow> True | Some e \<Rightarrow> corner_gone mode ax at delta e)
         then None
         else Some (a\<lparr>addr_range :=
                        \<lparr>coordinate_start = spec_corner mode ax at delta (coordinate_start r),
                         coordinate_end = map_option (spec_corner mode ax at delta) (coordinate_end r)\<rparr>\<rparr>)))"

text \<open>The whole owner; \<open>None\<close> is "the container deletes the owner".\<close>

definition spec_adjust ::
  "string \<Rightarrow> axis \<Rightarrow> nat \<Rightarrow> nat \<Rightarrow> edit_mode \<Rightarrow> owner \<Rightarrow> owner option" where
  "spec_adjust sheet ax at delta mode ow =
     (case ow of
        Literal s \<Rightarrow> Some (Literal s)
      | References as \<Rightarrow>
          (let as' = List.map_filter (spec_adjust_address sheet ax at delta mode) as
           in if as' = [] then None else Some (References as')))"

section \<open>The concrete edit\<close>

definition abs_owner :: "defined_name \<Rightarrow> owner" where
  "abs_owner d =
     (if has_value (string_value d) then Literal (get_value_str (string_value d)) else References (address d))"

text \<open>The four offsets the methods take: the edited axis gets the edit, the other none.\<close>

definition axis_args :: "axis \<Rightarrow> nat \<Rightarrow> nat \<Rightarrow> nat \<times> nat \<times> nat \<times> nat" where
  "axis_args ax at delta = (case ax of RowAxis \<Rightarrow> (0, 0, at, delta) | ColAxis \<Rightarrow> (at, delta, 0, 0))"

definition code_edit ::
  "string \<Rightarrow> axis \<Rightarrow> nat \<Rightarrow> nat \<Rightarrow> edit_mode \<Rightarrow> defined_name \<Rightarrow> defined_name option" where
  "code_edit sheet ax at delta mode d =
     (case axis_args ax at delta of
        (rc, oc, rr, orr) \<Rightarrow>
          (case mode of
             Insert \<Rightarrow> Some (adjustment_insert_coordinate d rc oc rr orr)
           | Remove \<Rightarrow>
               (case is_remove d sheet rc oc rr orr of
                  (gone, d') \<Rightarrow> if gone then None else Some (adjustment_remove_coordinate d' rc oc rr orr))))"

section \<open>The abstract and the concrete edit agree\<close>

lemma spec_corner_insert:
  "axis_args ax at delta = (rc, oc, rr, orr) \<Longrightarrow>
   spec_corner Insert ax at delta = (\<lambda>c. coordinate_insert c rc oc rr orr)"
  by (cases ax) (intro ext; auto simp: axis_args_def spec_corner_def spec_coord_def axis_value_def axis_update_def
      coordinate_insert_def coord_insert_def)+
lemma spec_corner_remove:
  "axis_args ax at delta = (rc, oc, rr, orr) \<Longrightarrow>
   spec_corner Remove ax at delta = (\<lambda>c. coordinate_remove c rc oc rr orr)"
  by (cases ax) (intro ext; auto simp: axis_args_def spec_corner_def spec_coord_def axis_value_def axis_update_def
      coordinate_remove_def coord_remove_def)+
lemma corner_gone_insert: "\<not> corner_gone Insert ax at delta c"
  by (simp add: corner_gone_def spec_coord_def)

lemma corner_gone_remove:
  "axis_args ax at delta = (rc, oc, rr, orr) \<Longrightarrow>
   corner_gone Remove ax at delta c \<longleftrightarrow> coordinate_is_remove c rc oc rr orr"
  by (cases ax) (auto simp: axis_args_def corner_gone_def spec_coord_def axis_value_def
      coordinate_is_remove_def coord_is_remove_def)

lemma spec_adjust_address_insert:
  "axis_args ax at delta = (rc, oc, rr, orr) \<Longrightarrow> sheet_name a = sheet \<Longrightarrow>
   spec_adjust_address sheet ax at delta Insert a =
     Some (a\<lparr>addr_range := range_adjustment_insert_coordinate (addr_range a) rc oc rr orr\<rparr>)"
  by (simp add: spec_adjust_address_def corner_gone_insert spec_corner_insert Let_def
      range_adjustment_insert_coordinate_def)

lemma spec_adjust_address_remove:
  "axis_args ax at delta = (rc, oc, rr, orr) \<Longrightarrow> sheet_name a = sheet \<Longrightarrow>
   spec_adjust_address sheet ax at delta Remove a =
     (if address_is_remove a sheet rc oc rr orr then None
      else Some (a\<lparr>addr_range := range_adjustment_remove_coordinate (addr_range a) rc oc rr orr\<rparr>))"
  by (simp add: spec_adjust_address_def corner_gone_remove spec_corner_remove Let_def
      range_adjustment_remove_coordinate_def address_is_remove_def range_is_remove_def
      split: option.splits)

lemma code_edit_abs:
  assumes inv: "owner_inv d" and ne: "has_value (string_value d) \<or> address d \<noteq> []"
    and on_sheet: "list_all (\<lambda>a. sheet_name a = sheet) (address d)"
  shows "map_option abs_owner (code_edit sheet ax at delta mode d) = spec_adjust sheet ax at delta mode (abs_owner d)"
proof -
  obtain rc oc rr orr where args: "axis_args ax at delta = (rc, oc, rr, orr)"
    by (cases "axis_args ax at delta") auto
  show ?thesis
  proof (cases "has_value (string_value d)")
    case True
    with inv have "address d = []" by (simp add: owner_inv_def)
    with True args show ?thesis
      by (cases mode) (simp_all add: code_edit_def abs_owner_def spec_adjust_def is_remove_def
          adjustment_insert_coordinate_def adjustment_remove_coordinate_def)
  next
    case False
    with ne have nonempty: "address d \<noteq> []" by simp
    show ?thesis
    proof (cases mode)
      case Insert
      have "List.map_filter (spec_adjust_address sheet ax at delta Insert) (address d) =
            map (\<lambda>a. a\<lparr>addr_range := range_adjustment_insert_coordinate (addr_range a) rc oc rr orr\<rparr>) (address d)"
        using on_sheet args
        by (auto simp: list_all_iff spec_adjust_address_insert intro!: map_filter_Some_map)
      with Insert False nonempty args show ?thesis
        by (simp add: code_edit_def abs_owner_def spec_adjust_def adjustment_insert_coordinate_def)
    next
      case Remove
      let ?keep = "filter (\<lambda>x. \<not> address_is_remove x sheet rc oc rr orr) (address d)"
      have "List.map_filter (spec_adjust_address sheet ax at delta Remove) (address d) =
            map (\<lambda>a. a\<lparr>addr_range := range_adjustment_remove_coordinate (addr_range a) rc oc rr orr\<rparr>) ?keep"
        using on_sheet args
        by (auto simp: list_all_iff spec_adjust_address_remove intro!: map_filter_if_None)
      with Remove False args show ?thesis
        by (simp add: code_edit_def abs_owner_def spec_adjust_def adjustment_remove_coordinate_def
            is_remove_def Let_def)
    qed
  qed
qed

text \<open>C16: for a defined name that keeps the owner invariant, is not empty and has all its
  addresses on the edited sheet, the container's protocol over is_remove and the two
  adjustment methods implements the abstract edit of the specification, for both axes and
  both modes, the deletion of the owner included.\<close>

theorem code_edit_refines:
  assumes inv: "owner_inv d" and ne: "has_value (string_value d) \<or> address d \<noteq> []"
    and on_sheet: "list_all (\<lambda>a. sheet_name a = sheet) (address d)"
  shows "map_option abs_owner (code_edit sheet ax at delta mode d) = spec_adjust sheet ax at delta mode (abs_owner d)"
  using assms by (rule code_edit_abs)

theorem code_edit_refines_witness:
  "owner_inv (set_address ''S!C4:D6,S!A1,S!B4'' defined_name_default) \<and>
   (has_value (string_value (set_address ''S!C4:D6,S!A1,S!B4'' defined_name_default)) \<or>
    address (set_address ''S!C4:D6,S!A1,S!B4'' defined_name_default) \<noteq> []) \<and>
   list_all (\<lambda>a. sheet_name a = ''S'') (address (set_address ''S!C4:D6,S!A1,S!B4'' defined_name_default)) \<and>
   map_option abs_owner (code_edit ''S'' RowAxis 4 1 Remove (set_address ''S!C4:D6,S!A1,S!B4'' defined_name_default)) =
   spec_adjust ''S'' RowAxis 4 1 Remove (abs_owner (set_address ''S!C4:D6,S!A1,S!B4'' defined_name_default))"
proof -
  have h1: "owner_inv (set_address ''S!C4:D6,S!A1,S!B4'' defined_name_default)" by code_simp
  have h2: "has_value (string_value (set_address ''S!C4:D6,S!A1,S!B4'' defined_name_default)) \<or>
    address (set_address ''S!C4:D6,S!A1,S!B4'' defined_name_default) \<noteq> []" by code_simp
  have h3: "list_all (\<lambda>a. sheet_name a = ''S'') (address (set_address ''S!C4:D6,S!A1,S!B4'' defined_name_default))"
    by code_simp
  show ?thesis using h1 h2 h3 code_edit_refines[OF h1 h2 h3] by blast
qed

end
