(* ===== verification/Smooth.thy ===== *)
theory Smooth
  imports TypedValue XmlEvents
begin

text \<open>
  \<open>structs::drawing::charts::Smooth\<close> (src/src/structs/drawing/charts/smooth.rs): the
  \<open>c:smooth\<close> element of a chart series, one boolean attribute \<open>val\<close>. It is the
  smallest instance of the element protocol: a struct of typed values, a reader of the
  start tag's attributes, a writer of a self-closing tag. The methods are prefixed with
  \<open>smooth_\<close> where their Rust names clash with the defined name's.
\<close>

record smooth =
  val :: boolean_value

definition smooth_default :: smooth where
  "smooth_default = \<lparr>val = Unset\<rparr>"

definition smooth_get_val :: "smooth \<Rightarrow> bool" where
  "smooth_get_val s = get_value_bool (val s)"

definition smooth_set_val :: "bool \<Rightarrow> smooth \<Rightarrow> smooth" where
  "smooth_set_val v s = s\<lparr>val := set_value v (val s)\<rparr>"

text \<open>\<open>get_attribute(e, b\"val\").unwrap()\<close>: a missing attribute panics.\<close>

definition smooth_set_attributes :: "smooth \<Rightarrow> attrs \<Rightarrow> smooth outcome" where
  "smooth_set_attributes s e =
     (case get_attribute e ''val'' of
        None \<Rightarrow> Inl (Panic ''called `Option::unwrap()` on a `None` value'')
      | Some v \<Rightarrow> Inr (s\<lparr>val := set_value_string parse_bool v (val s)\<rparr>))"

text \<open>The attribute is written whether or not the value is set.\<close>

definition smooth_write_to :: "smooth \<Rightarrow> xml_writer \<Rightarrow> xml_writer" where
  "smooth_write_to s w = write_start_tag w ''c:smooth'' [(''val'', get_value_string_bool (val s))] True"

text \<open>The chart reader's dispatch on an empty \<open>c:smooth\<close> tag: a fresh struct, then its
  \<open>set_attributes\<close>; the reader is not advanced further.\<close>

definition read_smooth :: "xml_stream \<Rightarrow> (smooth \<times> xml_stream) outcome" where
  "read_smooth s =
     (case s of
        Ev (Empty n e) # rest \<Rightarrow>
          (if n = ''c:smooth'' then
             (case smooth_set_attributes smooth_default e of Inl p \<Rightarrow> Inl p | Inr x \<Rightarrow> Inr (x, rest))
           else Inl (Panic ''expected c:smooth''))
      | _ \<Rightarrow> Inl (Panic ''expected c:smooth''))"

section \<open>Properties\<close>

text \<open>C17: a smooth element whose value is set is read back as itself from what its writer
  emits, and the reader stops right after the tag.\<close>

theorem smooth_write_read_roundtrip:
  assumes "has_value (val s)"
  shows "read_smooth (as_stream (smooth_write_to s []) @ rest) = Inr (s, rest)"
proof -
  obtain b where "val s = Value b" using assms by (cases "val s") auto
  then show ?thesis
    by (cases s) (simp add: read_smooth_def smooth_write_to_def write_start_tag_def as_stream_def
        smooth_set_attributes_def get_attribute_def smooth_default_def get_value_bool_def)
qed

theorem smooth_write_read_roundtrip_witness:
  "has_value (val (smooth_set_val True smooth_default)) \<and>
   read_smooth (as_stream (smooth_write_to (smooth_set_val True smooth_default) []) @ []) =
   Inr (smooth_set_val True smooth_default, [])"
proof -
  have h: "has_value (val (smooth_set_val True smooth_default))" by (simp add: smooth_set_val_def)
  show ?thesis using h smooth_write_read_roundtrip[OF h] by blast
qed


text \<open>C19: a c:smooth tag without the val attribute makes the reader panic; the
  specification asks for a MissingRequiredAttribute error value.\<close>

theorem smooth_missing_val_panics:
  assumes "get_attribute e ''val'' = None"
  shows "\<exists>m. smooth_set_attributes s e = Inl (Panic m)"
  using assms by (simp add: smooth_set_attributes_def)

theorem smooth_missing_val_panics_witness:
  "get_attribute [(''v'', ''1'')] ''val'' = None \<and>
   (\<exists>m. smooth_set_attributes smooth_default [(''v'', ''1'')] = Inl (Panic m))"
proof -
  have h: "get_attribute [(''v'', ''1'')] ''val'' = None" by (simp add: get_attribute_def)
  show ?thesis using h smooth_missing_val_panics[OF h] by blast
qed

end
