(* ===== verification/DrawingReader.thy ===== *)
theory DrawingReader
  imports XmlEvents
begin

text \<open>
  \<open>reader::xlsx::drawing::read\<close> (src/src/reader/xlsx/drawing.rs): open the part
  \<open>xl/drawings/<target>\<close> of the package, then run the event loop that hands every
  \<open>xdr:wsDr\<close> start tag to the worksheet drawing's own reader, until the end of input.
  The archive is a lookup from part path to its event stream (the zip layer and
  \<open>normalize_path\<close> are outside the sources). The worksheet drawing's reader is not among
  the sources either: it is a parameter, a function from the drawing state, the start
  tag's attributes and the rest of the stream to the new state and the stream it left,
  or a panic. Since that callee decides where the loop resumes, the loop is a
  \<open>partial_function (option)\<close>: \<open>None\<close> is "does not return", and termination is a
  theorem about callees that only consume.
\<close>

datatype xlsx_error = ZipFileNotFound string

type_synonym 'w wsdr_reader = "'w \<Rightarrow> attrs \<Rightarrow> xml_stream \<Rightarrow> ('w \<times> xml_stream) outcome"

partial_function (option) drawing_loop ::
  "'w wsdr_reader \<Rightarrow> 'w \<Rightarrow> xml_stream \<Rightarrow> 'w outcome option" where
  "drawing_loop f w s =
     (case s of
        [] \<Rightarrow> Some (Inr w)
      | ReadError m # _ \<Rightarrow> Some (Inl (Panic m))
      | Ev e # rest \<Rightarrow>
          (case e of
             Start n as \<Rightarrow>
               (if n = ''xdr:wsDr'' then
                  (case f w as rest of
                     Inl p \<Rightarrow> Some (Inl p)
                   | Inr (w', rest') \<Rightarrow> drawing_loop f w' rest')
                else drawing_loop f w rest)
          | Eof \<Rightarrow> Some (Inr w)
          | _ \<Rightarrow> drawing_loop f w rest))"

text \<open>
  \<open>read\<close>: the part lookup's error is returned with \<open>?\<close>; a panic of the loop aborts;
  otherwise \<open>Ok(())\<close> with the worksheet's drawing updated.
\<close>

definition drawing_read ::
  "(string \<Rightarrow> xml_stream option) \<Rightarrow> 'w wsdr_reader \<Rightarrow> string \<Rightarrow> 'w \<Rightarrow> (xlsx_error + 'w) outcome option" where
  "drawing_read arv f target w =
     (let path = ''xl/drawings/'' @ target in
      case arv path of
        None \<Rightarrow> Some (Inr (Inl (ZipFileNotFound path)))
      | Some s \<Rightarrow> map_option (map_sum id Inr) (drawing_loop f w s))"

text \<open>A callee that only consumes: it never hands back a longer stream than it got.\<close>

definition consumes :: "'w wsdr_reader \<Rightarrow> bool" where
  "consumes f \<longleftrightarrow> (\<forall>w as s w' s'. f w as s = Inr (w', s') \<longrightarrow> length s' \<le> length s)"

text \<open>An event the loop passes over without calling the callee or stopping.\<close>

definition passed_over :: "xml_event \<Rightarrow> bool" where
  "passed_over e \<longleftrightarrow> (case e of Start n _ \<Rightarrow> n \<noteq> ''xdr:wsDr'' | Eof \<Rightarrow> False | _ \<Rightarrow> True)"

section \<open>Properties\<close>

lemma drawing_loop_terminates:
  assumes "consumes f"
  shows "\<exists>r. drawing_loop f w s = Some r"
proof (induction "length s" arbitrary: w s rule: less_induct)
  case less
  show ?case
  proof (cases s)
    case Nil
    then show ?thesis by (simp add: drawing_loop.simps)
  next
    case (Cons i rest)
    have short: "length rest < length s" using Cons by simp
    show ?thesis
    proof (cases i)
      case (ReadError m)
      with Cons show ?thesis by (simp add: drawing_loop.simps)
    next
      case (Ev e)
      show ?thesis
      proof (cases "\<exists>as. e = Start ''xdr:wsDr'' as")
        case True
        then obtain as where e: "e = Start ''xdr:wsDr'' as" by blast
        show ?thesis
        proof (cases "f w as rest")
          case (Inl p)
          with Cons Ev e show ?thesis by (simp add: drawing_loop.simps)
        next
          case (Inr r)
          then obtain w' rest' where r: "f w as rest = Inr (w', rest')" by (cases r) auto
          with assms have "length rest' \<le> length rest" by (auto simp: consumes_def)
          with short have "length rest' < length s" by simp
          then obtain x where "drawing_loop f w' rest' = Some x" using less by blast
          with Cons Ev e r show ?thesis by (simp add: drawing_loop.simps)
        qed
      next
        case False
        obtain x where x: "drawing_loop f w rest = Some x" using less short by blast
        with False Cons Ev show ?thesis
          by (cases e) (auto simp: drawing_loop.simps)
      qed
    qed
  qed
qed

text \<open>C20: with a worksheet drawing reader that only consumes events, reading a drawing
  part always returns: a result, a returned error or a panic, never a loop.\<close>

theorem drawing_read_terminates:
  assumes "consumes f"
  shows "\<exists>r. drawing_read arv f target w = Some r"
  using drawing_loop_terminates[OF assms]
  by (cases "arv (''xl/drawings/'' @ target)") (auto simp: drawing_read_def)

theorem drawing_read_terminates_witness:
  "consumes (\<lambda>(k::nat) as s. Inr (Suc k, s)) \<and>
   (\<exists>r. drawing_read (\<lambda>p. Some [Ev (Start ''xdr:wsDr'' []), Ev (End ''xdr:wsDr'')])
          (\<lambda>(k::nat) as s. Inr (Suc k, s)) ''drawing1.xml'' 0 = Some r)"
proof -
  have h: "consumes (\<lambda>(k::nat) as s. Inr (Suc k, s))" by (simp add: consumes_def)
  show ?thesis using h drawing_read_terminates[OF h] by blast
qed

lemma drawing_loop_Cons_passed:
  "passed_over e \<Longrightarrow> drawing_loop f w (Ev e # rest) = drawing_loop f w rest"
  by (subst drawing_loop.simps) (cases e; simp add: passed_over_def)

lemma drawing_loop_ReadError: "drawing_loop f w (ReadError m # rest) = Some (Inl (Panic m))"
  by (subst drawing_loop.simps) simp

lemma drawing_loop_passed_over:
  "list_all passed_over evs \<Longrightarrow> drawing_loop f w (map Ev evs @ rest) = drawing_loop f w rest"
  by (induction evs) (simp_all add: drawing_loop_Cons_passed)

text \<open>C21: a read error of the event stream makes the drawing reader panic (the source's
  panic! in the Err arm); the specification asks for a returned IoFault.\<close>

theorem drawing_loop_read_error:
  assumes "list_all passed_over evs"
  shows "drawing_loop f w (map Ev evs @ ReadError m # rest) = Some (Inl (Panic m))"
  by (simp only: drawing_loop_passed_over[OF assms] drawing_loop_ReadError)

theorem drawing_loop_read_error_witness:
  "list_all passed_over [Start ''xdr:other'' [], Text ''x''] \<and>
   drawing_loop (\<lambda>(k::nat) as s. Inr (Suc k, s)) 0
     (map Ev [Start ''xdr:other'' [], Text ''x''] @ ReadError ''bad'' # []) = Some (Inl (Panic ''bad''))"
proof -
  have h: "list_all passed_over [Start ''xdr:other'' [], Text ''x'']" by (simp add: passed_over_def)
  show ?thesis using h drawing_loop_read_error[OF h, of _ _ "''bad''" "[]"] by simp
qed

end
