(* ===== verification/Binder.thy ===== *)
theory Binder
  imports DefinedName
begin

text \<open>
  The generic element binder of the specification (section 4.4), which the crate does
  not have as code: its readers are macro-expanded loops (\<open>xml_read_loop!\<close>), one per
  element. The binder here is the specification's state machine for an element whose
  schema declares a text accumulator and no children, as \<open>definedName\<close>'s does: a
  small-step relation \<open>bind_step\<close> over configurations (running at a nesting depth with
  the text so far, done with the text and the rest of the stream, or failed), and the
  executable \<open>bind_run\<close>. Lemmas: the relation is deterministic, always reaches a final
  configuration, and \<open>bind_run\<close> computes it; unknown subtrees are skipped whole. The defined name's reader loop refines the binder on flat
  content with at most one text, and departs from it on a nested end tag of the same
  name.
\<close>

section \<open>Configurations and steps\<close>

datatype bind_error = UnexpectedEndOfInput | StructuralMarkupError string | IoFault string

datatype bind_conf =
    Running nat string xml_stream
  | Done string xml_stream
  | Failed bind_error

primrec final :: "bind_conf \<Rightarrow> bool" where
  "final (Running k acc s) = False"
| "final (Done acc s) = True"
| "final (Failed e) = True"

inductive bind_step :: "string \<Rightarrow> bind_conf \<Rightarrow> bind_conf \<Rightarrow> bool" for el where
  text_top: "unescape t = Some t' \<Longrightarrow>
    bind_step el (Running 0 acc (Ev (Text t) # s)) (Running 0 (acc @ t') s)"
| text_bad: "unescape t = None \<Longrightarrow>
    bind_step el (Running 0 acc (Ev (Text t) # s)) (Failed (IoFault ''unescape''))"
| text_inner: "bind_step el (Running (Suc k) acc (Ev (Text t) # s)) (Running (Suc k) acc s)"
| start: "bind_step el (Running k acc (Ev (Start n as) # s)) (Running (Suc k) acc s)"
| empty: "bind_step el (Running k acc (Ev (Empty n as) # s)) (Running k acc s)"
| other: "bind_step el (Running k acc (Ev Other # s)) (Running k acc s)"
| end_inner: "bind_step el (Running (Suc k) acc (Ev (End n) # s)) (Running k acc s)"
| end_own: "bind_step el (Running 0 acc (Ev (End el) # s)) (Done acc s)"
| end_bad: "n \<noteq> el \<Longrightarrow>
    bind_step el (Running 0 acc (Ev (End n) # s)) (Failed (StructuralMarkupError n))"
| eof_nil: "bind_step el (Running k acc []) (Failed UnexpectedEndOfInput)"
| eof: "bind_step el (Running k acc (Ev Eof # s)) (Failed UnexpectedEndOfInput)"
| io: "bind_step el (Running k acc (ReadError m # s)) (Failed (IoFault m))"

fun bind_run :: "string \<Rightarrow> nat \<Rightarrow> string \<Rightarrow> xml_stream \<Rightarrow> bind_conf" where
  "bind_run el k acc [] = Failed UnexpectedEndOfInput"
| "bind_run el k acc (ReadError m # s) = Failed (IoFault m)"
| "bind_run el k acc (Ev e # s) =
     (case e of
        Text t \<Rightarrow>
          (if k = 0 then
             (case unescape t of
                None \<Rightarrow> Failed (IoFault ''unescape'')
              | Some t' \<Rightarrow> bind_run el 0 (acc @ t') s)
           else bind_run el k acc s)
      | Start n as \<Rightarrow> bind_run el (Suc k) acc s
      | Empty n as \<Rightarrow> bind_run el k acc s
      | Other \<Rightarrow> bind_run el k acc s
      | End n \<Rightarrow>
          (if k = 0 then (if n = el then Done acc s else Failed (StructuralMarkupError n))
           else bind_run el (k - 1) acc s)
      | Eof \<Rightarrow> Failed UnexpectedEndOfInput)"

section \<open>Event classes\<close>

definition flat_event :: "xml_event \<Rightarrow> bool" where
  "flat_event e \<longleftrightarrow>
     (case e of Text t \<Rightarrow> unescape t \<noteq> None | Empty n as \<Rightarrow> True | Other \<Rightarrow> True | _ \<Rightarrow> False)"

primrec is_text :: "xml_event \<Rightarrow> bool" where
  "is_text (Text t) = True"
| "is_text (Start n as) = False"
| "is_text (Empty n as) = False"
| "is_text (End n) = False"
| "is_text Eof = False"
| "is_text Other = False"

primrec text_of :: "xml_event \<Rightarrow> string" where
  "text_of (Text t) = the (unescape t)"
| "text_of (Start n as) = []"
| "text_of (Empty n as) = []"
| "text_of (End n) = []"
| "text_of Eof = []"
| "text_of Other = []"


fun closes :: "nat \<Rightarrow> xml_event list \<Rightarrow> bool" where
  "closes d [] = False"
| "closes d (End n # es) = (if d = 1 then es = [] else closes (d - 1) es)"
| "closes d (Start n as # es) = closes (Suc d) es"
| "closes d (Eof # es) = False"
| "closes d (Text t # es) = closes d es"
| "closes d (Empty n as # es) = closes d es"
| "closes d (Other # es) = closes d es"

text \<open>An event the reader loop passes over without a change: no text, no end of input,
  no definedName end tag.\<close>

definition loop_skippable :: "xml_event \<Rightarrow> bool" where
  "loop_skippable e \<longleftrightarrow>
     (case e of Text t \<Rightarrow> False | End n \<Rightarrow> n \<noteq> ''definedName'' | Eof \<Rightarrow> False | _ \<Rightarrow> True)"

section \<open>Lemmas: steps and runs\<close>

inductive_cases bind_step_RunningE: "bind_step el (Running k acc s) c"

inductive_cases bind_step_DoneE [elim!]: "bind_step el (Done acc s) c"

inductive_cases bind_step_FailedE [elim!]: "bind_step el (Failed e) c"

lemma bind_step_final: "final c \<Longrightarrow> \<not> bind_step el c c'"
  by (cases c) auto

lemma bind_step_deterministic: "bind_step el c c1 \<Longrightarrow> bind_step el c c2 \<Longrightarrow> c1 = c2"
  by (induction rule: bind_step.induct) (auto elim: bind_step_RunningE)

lemma bind_run_step:
  "bind_step el (Running k acc s) c \<Longrightarrow> bind_run el k acc s = (case c of
     Running k' acc' s' \<Rightarrow> bind_run el k' acc' s' | _ \<Rightarrow> c)"
  by (erule bind_step_RunningE) auto

lemma bind_run_steps:
  "(bind_step el)\<^sup>*\<^sup>* (Running k acc s) (bind_run el k acc s)"
proof (induction el k acc s rule: bind_run.induct)
  case (1 el k acc)
  then show ?case by (auto intro: bind_step.intros)
next
  case (2 el k acc m s)
  then show ?case by (auto intro: bind_step.intros)
next
  case (3 el k acc e s)
  show ?case
  proof (cases e)
    case (Text t)
    then show ?thesis using 3
      by (cases k; cases "unescape t")
         (auto intro: bind_step.intros converse_rtranclp_into_rtranclp)
  next
    case (End n)
    then show ?thesis using 3
      by (cases k) (auto intro: bind_step.intros converse_rtranclp_into_rtranclp)
  qed (use 3 in \<open>auto intro: bind_step.intros converse_rtranclp_into_rtranclp\<close>)
qed

lemma bind_run_final: "final (bind_run el k acc s)"
  by (induction el k acc s rule: bind_run.induct) (auto split: xml_event.splits option.splits)

lemma steps_final_unique:
  assumes "(bind_step el)\<^sup>*\<^sup>* c c1" "final c1" "(bind_step el)\<^sup>*\<^sup>* c c2" "final c2"
  shows "c1 = c2"
  using assms
proof (induction arbitrary: c2 rule: converse_rtranclp_induct)
  case base
  then show ?case using bind_step_final by (metis converse_rtranclpE)
next
  case (step c c')
  from step.prems step.hyps(1) have "(bind_step el)\<^sup>*\<^sup>* c' c2"
    by (metis bind_step_deterministic bind_step_final converse_rtranclpE)
  then show ?case using step by blast
qed

lemma bind_run_flat:
  "list_all flat_event evs \<Longrightarrow>
   bind_run el 0 acc (map Ev evs @ s) = bind_run el 0 (acc @ concat (map text_of evs)) s"
proof (induction evs arbitrary: acc)
  case Nil
  then show ?case by simp
next
  case (Cons e evs)
  then show ?case by (cases e) (auto simp: flat_event_def)
qed

lemma loop_flat_no_text:
  "list_all flat_event evs \<Longrightarrow> \<not> list_ex is_text evs \<Longrightarrow>
   set_attributes_loop v d (map Ev evs @ s) = set_attributes_loop v d s"
proof (induction evs)
  case Nil
  then show ?case by simp
next
  case (Cons e evs)
  then show ?case by (cases e) (auto simp: flat_event_def)
qed

lemma text_of_no_text: "\<not> list_ex is_text evs \<Longrightarrow> concat (map text_of evs) = []"
proof (induction evs)
  case Nil
  then show ?case by simp
next
  case (Cons e evs)
  then show ?case by (cases e) auto
qed

lemma one_text_split:
  assumes "list_ex is_text evs" "length (filter is_text evs) \<le> 1"
  obtains xs t ys where "evs = xs @ Text t # ys" "\<not> list_ex is_text xs" "\<not> list_ex is_text ys"
proof -
  obtain xs e ys where e: "evs = xs @ e # ys" "is_text e" "\<forall>y\<in>set xs. \<not> is_text y"
    using split_list_first_prop[of evs is_text] assms(1) unfolding list_ex_iff by blast
  obtain t where t: "e = Text t" using e(2) by (cases e) simp_all
  have fx: "filter is_text xs = []" using e(3) by (simp only: filter_empty_conv)
  have "length (filter is_text evs) = Suc (length (filter is_text ys))"
    using e(1,2) fx by simp
  then have "filter is_text ys = []" using assms(2) by simp
  then have "\<not> list_ex is_text ys" by (simp only: filter_empty_conv list_ex_iff) blast
  moreover have "\<not> list_ex is_text xs" using e(3) by (simp only: list_ex_iff) blast
  ultimately show ?thesis using that e(1) t by blast
qed

lemma bind_run_closes:
  "closes d evs \<Longrightarrow> 0 < d \<Longrightarrow> bind_run el d acc (map Ev evs @ s) = bind_run el 0 acc s"
proof (induction d evs rule: closes.induct)
  case (2 d n es)
  then show ?case by (cases "d = 1") auto
qed auto

lemma loop_skippable_events:
  "list_all loop_skippable evs \<Longrightarrow> set_attributes_loop v d (map Ev evs @ s) = set_attributes_loop v d s"
proof (induction evs)
  case Nil
  then show ?case by simp
next
  case (Cons e evs)
  then show ?case by (cases e) (simp_all add: loop_skippable_def)
qed



section \<open>Properties of the binder and of the reader against it\<close>

text \<open>From every running configuration, on every stream, the binder reaches a final configuration (done or failed).\<close>

lemma bind_reaches_final:
  "\<exists>c. (bind_step el)\<^sup>*\<^sup>* (Running k acc s) c \<and> final c"
  using bind_run_steps bind_run_final by blast

text \<open>The executable binder bind_run computes exactly the final configuration the step relation reaches: a configuration is reachable and final iff it is the value of bind_run.\<close>

lemma bind_run_iff_steps:
  "((bind_step el)\<^sup>*\<^sup>* (Running k acc s) c \<and> final c) \<longleftrightarrow> c = bind_run el k acc s"
  using bind_run_steps bind_run_final steps_final_unique by blast

text \<open>C26: the reader loop of DefinedName::set_attributes refines the binder on flat content (texts that unescape, empty tags, other events) with at most one text: both reach the end tag, and the loop hands set_address the text the binder accumulates, leaving the same rest of the stream.\<close>

theorem loop_refines_binder:
  assumes "list_all flat_event evs" "length (filter is_text evs) \<le> 1"
  shows "\<exists>acc. bind_run ''definedName'' 0 [] (map Ev evs @ Ev (End ''definedName'') # rest) =
                 Done acc rest \<and>
               set_attributes_loop [] d (map Ev evs @ Ev (End ''definedName'') # rest) =
                 Inr (set_address acc d, rest)"
proof (cases "list_ex is_text evs")
  case False
  then show ?thesis using assms by (simp add: bind_run_flat loop_flat_no_text text_of_no_text)
next
  case True
  then obtain xs t ys where evs: "evs = xs @ Text t # ys" and
    nx: "\<not> list_ex is_text xs" and ny: "\<not> list_ex is_text ys"
    using assms(2) one_text_split by blast
  have f: "list_all flat_event xs" "list_all flat_event ys" "unescape t \<noteq> None"
    using assms(1) evs by (simp_all add: flat_event_def)
  then obtain t' where t': "unescape t = Some t'" by blast
  have "set_attributes_loop [] d (map Ev evs @ Ev (End ''definedName'') # rest) =
        Inr (set_address t' d, rest)"
    using evs f t' nx ny by (simp add: loop_flat_no_text)
  moreover have "concat (map text_of evs) = t'"
    using evs t' nx ny by (simp add: text_of_no_text)
  ultimately show ?thesis using assms(1) by (simp add: bind_run_flat)
qed

theorem loop_refines_binder_witness:
  "list_all flat_event [Other, Text ''A1'', Empty ''e'' []] \<and>
   length (filter is_text [Other, Text ''A1'', Empty ''e'' []]) \<le> 1 \<and>
   bind_run ''definedName'' 0 [] (map Ev [Other, Text ''A1'', Empty ''e'' []] @ [Ev (End ''definedName'')]) =
     Done ''A1'' [] \<and>
   set_attributes_loop [] defined_name_default
     (map Ev [Other, Text ''A1'', Empty ''e'' []] @ [Ev (End ''definedName'')]) =
     Inr (set_address ''A1'' defined_name_default, [])"
  using loop_refines_binder[of "[Other, Text ''A1'', Empty ''e'' []]" "[]" defined_name_default]
  by (simp add: flat_event_def)

text \<open>C27: an unknown child element whose events close it, holding no text, no end of input
  and no definedName end tag, is skipped whole by the reader loop and by the binder alike:
  both continue right after its end tag.\<close>

theorem skip_unknown_subtree:
  assumes "closes 1 evs" "list_all loop_skippable evs"
  shows "set_attributes_loop v d (Ev (Start n as) # map Ev evs @ s) = set_attributes_loop v d s \<and>
         bind_run el 0 acc (Ev (Start n as) # map Ev evs @ s) = bind_run el 0 acc s"
  using bind_run_closes[OF assms(1)] loop_skippable_events[OF assms(2)] by simp

theorem skip_unknown_subtree_witness:
  "closes 1 [Empty ''y'' [], Start ''z'' [], End ''z'', End ''x''] \<and>
   list_all loop_skippable [Empty ''y'' [], Start ''z'' [], End ''z'', End ''x''] \<and>
   set_attributes_loop [] defined_name_default
     (Ev (Start ''x'' []) # map Ev [Empty ''y'' [], Start ''z'' [], End ''z'', End ''x''] @
      [Ev (Text ''A1''), Ev (End ''definedName''), Ev Other]) =
     Inr (set_address ''A1'' defined_name_default, [Ev Other]) \<and>
   bind_run ''definedName'' 0 []
     (Ev (Start ''x'' []) # map Ev [Empty ''y'' [], Start ''z'' [], End ''z'', End ''x''] @
      [Ev (Text ''A1''), Ev (End ''definedName''), Ev Other]) = Done ''A1'' [Ev Other]"
  using skip_unknown_subtree[of "[Empty ''y'' [], Start ''z'' [], End ''z'', End ''x'']"
      "[]" defined_name_default "''x''" "[]" "[Ev (Text ''A1''), Ev (End ''definedName''), Ev Other]"
      "''definedName''" "[]"]
  by (simp add: loop_skippable_def)





end
