(* ===== verification/Workbook.thy ===== *)
theory Workbook
  imports RefAdjust
begin

text \<open>
  The container side of the Reference Adjuster (specification, section 4.2): the defined
  names of a workbook under a sequence of row and column edits of one sheet. The
  worksheet is not among the sources; \<open>ws_edit\<close> is its loop over the defined names,
  which runs the defined name's \<open>is_remove\<close> and adjustment methods (\<open>code_edit\<close>)
  and drops the names reported empty. \<open>ws_steps\<close> is the step relation of runs of such
  edits. Lemmas: every edit keeps each remaining name well formed (owner invariant,
  not empty, all addresses on the edited sheet), so by rule induction every reachable
  container is well formed (C30), and every edit of a reachable container implements
  the abstract edit of the specification on the whole list of owners (C31). A name that also
  holds addresses of another sheet departs from it: the edit moves those too (C12).
\<close>

definition ws_edit ::
  "string \<Rightarrow> axis \<Rightarrow> nat \<Rightarrow> nat \<Rightarrow> edit_mode \<Rightarrow> defined_name list \<Rightarrow> defined_name list" where
  "ws_edit sheet ax at delta mode ds = List.map_filter (code_edit sheet ax at delta mode) ds"

inductive ws_steps :: "string \<Rightarrow> defined_name list \<Rightarrow> defined_name list \<Rightarrow> bool" for sheet where
  refl: "ws_steps sheet ds ds"
| edit: "ws_steps sheet ds ds' \<Longrightarrow> ws_steps sheet ds (ws_edit sheet ax at delta mode ds')"

definition good_name :: "string \<Rightarrow> defined_name \<Rightarrow> bool" where
  "good_name sheet d \<longleftrightarrow>
     owner_inv d \<and> (has_value (string_value d) \<or> address d \<noteq> []) \<and>
     list_all (\<lambda>a. sheet_name a = sheet) (address d)"

section \<open>Lemmas: one edit\<close>

lemma good_name_map_range:
  "good_name sheet d \<Longrightarrow>
   good_name sheet (d\<lparr>address := map (\<lambda>a. a\<lparr>addr_range := f (addr_range a)\<rparr>) (address d)\<rparr>)"
  by (simp add: good_name_def owner_inv_def list_all_iff)

lemma is_remove_kept_good:
  assumes "is_remove d sh rc oc rr orr = (False, d1)" "good_name sheet d"
  shows "good_name sheet d1"
proof -
  let ?d = "d\<lparr>address := filter (\<lambda>x. \<not> address_is_remove x sh rc oc rr orr) (address d)\<rparr>"
  have d1: "d1 = ?d" and live: "has_value (string_value ?d) \<or> address ?d \<noteq> []"
    using assms(1) by (simp_all add: is_remove_def Let_def split: if_splits)
  have "owner_inv ?d" using assms(2) by (simp add: good_name_def owner_inv_def)
  moreover have "list_all (\<lambda>a. sheet_name a = sheet) (address ?d)"
    using assms(2) by (simp add: good_name_def list_all_iff)
  ultimately show ?thesis using d1 live by (simp only: good_name_def)
qed

lemma code_edit_good:
  assumes "code_edit sheet ax at delta mode d = Some d'" "good_name sheet d"
  shows "good_name sheet d'"
proof -
  obtain rc oc rr orr where args: "axis_args ax at delta = (rc, oc, rr, orr)"
    by (cases "axis_args ax at delta") auto
  show ?thesis
  proof (cases mode)
    case Insert
    have "code_edit sheet ax at delta mode d = Some (adjustment_insert_coordinate d rc oc rr orr)"
      using Insert args by (simp add: code_edit_def)
    then have "d' = adjustment_insert_coordinate d rc oc rr orr" using assms(1) by simp
    then show ?thesis using assms(2) good_name_map_range by (simp add: adjustment_insert_coordinate_def)
  next
    case Remove
    obtain gone d1 where r: "is_remove d sheet rc oc rr orr = (gone, d1)"
      by (cases "is_remove d sheet rc oc rr orr")
    have "code_edit sheet ax at delta mode d =
          (if gone then None else Some (adjustment_remove_coordinate d1 rc oc rr orr))"
      using Remove args r by (simp add: code_edit_def)
    then have ng: "\<not> gone" and d': "d' = adjustment_remove_coordinate d1 rc oc rr orr"
      using assms(1) by (simp_all split: if_splits)
    have "is_remove d sheet rc oc rr orr = (False, d1)" using r ng by simp
    then have "good_name sheet d1" using assms(2) by (rule is_remove_kept_good)
    then show ?thesis using d' good_name_map_range by (simp add: adjustment_remove_coordinate_def)
  qed
qed

lemma ws_edit_good:
  "list_all (good_name sheet) ds \<Longrightarrow> list_all (good_name sheet) (ws_edit sheet ax at delta mode ds)"
proof (induction ds)
  case Nil
  then show ?case by (simp add: ws_edit_def List.map_filter_simps)
next
  case (Cons d ds)
  then show ?case
    by (cases "code_edit sheet ax at delta mode d")
       (auto simp: ws_edit_def List.map_filter_simps dest: code_edit_good)
qed

lemma ws_edit_abs:
  "list_all (good_name sheet) ds \<Longrightarrow>
   map abs_owner (ws_edit sheet ax at delta mode ds) =
   List.map_filter (spec_adjust sheet ax at delta mode) (map abs_owner ds)"
proof (induction ds)
  case Nil
  then show ?case by (simp add: ws_edit_def List.map_filter_simps)
next
  case (Cons d ds)
  have "map_option abs_owner (code_edit sheet ax at delta mode d) =
        spec_adjust sheet ax at delta mode (abs_owner d)"
    using Cons.prems by (intro code_edit_abs) (simp_all add: good_name_def)
  with Cons show ?case
    by (cases "code_edit sheet ax at delta mode d"; cases "spec_adjust sheet ax at delta mode (abs_owner d)")
       (auto simp: ws_edit_def List.map_filter_simps)
qed

lemma ws_steps_good_inv:
  assumes "ws_steps sheet ds ds'" "list_all (good_name sheet) ds"
  shows "list_all (good_name sheet) ds'"
  using assms
proof (induction rule: ws_steps.induct)
  case refl
  then show ?case .
next
  case (edit ds0 ds1 ax at delta mode)
  then show ?case by (simp add: ws_edit_good)
qed


section \<open>Properties of runs of edits\<close>

text \<open>C30: invariant of the workbook's defined names: along any run of row and column
  edits of a sheet, starting from names that keep the owner invariant, are not empty and
  refer to that sheet only, every name that remains has these three properties.\<close>

theorem ws_steps_good:
  assumes "ws_steps sheet ds ds'" "list_all (good_name sheet) ds"
  shows "list_all (good_name sheet) ds'"
  using assms by (rule ws_steps_good_inv)

theorem ws_steps_good_witness:
  "ws_steps ''S'' [set_address ''S!A1:B4,S!C2'' defined_name_default]
     (ws_edit ''S'' RowAxis 2 1 Remove [set_address ''S!A1:B4,S!C2'' defined_name_default]) \<and>
   list_all (good_name ''S'') [set_address ''S!A1:B4,S!C2'' defined_name_default] \<and>
   list_all (good_name ''S'') (ws_edit ''S'' RowAxis 2 1 Remove [set_address ''S!A1:B4,S!C2'' defined_name_default])"
proof -
  have s: "ws_steps ''S'' [set_address ''S!A1:B4,S!C2'' defined_name_default]
     (ws_edit ''S'' RowAxis 2 1 Remove [set_address ''S!A1:B4,S!C2'' defined_name_default])"
    by (rule ws_steps.edit[OF ws_steps.refl])
  have g: "list_all (good_name ''S'') [set_address ''S!A1:B4,S!C2'' defined_name_default]"
    by code_simp
  show ?thesis using s g ws_steps_good[OF s g] by blast
qed

text \<open>C31: in every container reached by a run of edits from such names, the next edit,
  done by the container over is_remove and the adjustment methods of each name, is the
  abstract edit of the specification applied to the list of owners, deletions of owners
  included.\<close>

theorem ws_steps_refines:
  assumes "ws_steps sheet ds0 ds" "list_all (good_name sheet) ds0"
  shows "map abs_owner (ws_edit sheet ax at delta mode ds) =
         List.map_filter (spec_adjust sheet ax at delta mode) (map abs_owner ds)"
  using ws_steps_good_inv[OF assms] by (rule ws_edit_abs)

theorem ws_steps_refines_witness:
  "ws_steps ''S'' [set_address ''S!A1:B4,S!C2'' defined_name_default]
     (ws_edit ''S'' RowAxis 2 1 Remove [set_address ''S!A1:B4,S!C2'' defined_name_default]) \<and>
   list_all (good_name ''S'') [set_address ''S!A1:B4,S!C2'' defined_name_default] \<and>
   map abs_owner (ws_edit ''S'' ColAxis 1 1 Insert
     (ws_edit ''S'' RowAxis 2 1 Remove [set_address ''S!A1:B4,S!C2'' defined_name_default])) =
   List.map_filter (spec_adjust ''S'' ColAxis 1 1 Insert)
     (map abs_owner (ws_edit ''S'' RowAxis 2 1 Remove [set_address ''S!A1:B4,S!C2'' defined_name_default]))"
proof -
  have s: "ws_steps ''S'' [set_address ''S!A1:B4,S!C2'' defined_name_default]
     (ws_edit ''S'' RowAxis 2 1 Remove [set_address ''S!A1:B4,S!C2'' defined_name_default])"
    by (rule ws_steps.edit[OF ws_steps.refl])
  have g: "list_all (good_name ''S'') [set_address ''S!A1:B4,S!C2'' defined_name_default]"
    by code_simp
  show ?thesis using s g ws_steps_refines[OF s g, of ColAxis 1 1 Insert] by blast
qed

section \<open>Edits of other sheets\<close>

lemma ws_edit_insert_single:
  "ws_edit sheet RowAxis at delta Insert [d] = [adjustment_insert_coordinate d 0 0 at delta]"
  by (simp add: ws_edit_def code_edit_def axis_args_def List.map_filter_simps)

lemma abs_owner_insert:
  "\<not> has_value (string_value d) \<Longrightarrow>
   abs_owner (adjustment_insert_coordinate d rc oc rr orr) =
   References (map (\<lambda>a. a\<lparr>addr_range := range_adjustment_insert_coordinate (addr_range a) rc oc rr orr\<rparr>) (address d))"
  by (simp add: abs_owner_def adjustment_insert_coordinate_def)

lemma spec_adjust_address_insert_Some:
  "spec_adjust_address sheet ax at delta Insert b = Some (the (spec_adjust_address sheet ax at delta Insert b))"
  by (simp add: spec_adjust_address_def corner_gone_insert Let_def)

lemma spec_adjust_insert_refs:
  "as \<noteq> [] \<Longrightarrow>
   spec_adjust sheet ax at delta Insert (References as) =
   Some (References (map (\<lambda>b. the (spec_adjust_address sheet ax at delta Insert b)) as))"
proof -
  assume ne: "as \<noteq> []"
  have "List.map_filter (spec_adjust_address sheet ax at delta Insert) as =
        map (\<lambda>b. the (spec_adjust_address sheet ax at delta Insert b)) as"
    by (rule map_filter_Some_map) (rule spec_adjust_address_insert_Some)
  then show ?thesis using ne by (simp add: spec_adjust_def Let_def)
qed

lemma spec_adjust_address_other_sheet:
  "sheet_name b \<noteq> sheet \<Longrightarrow> spec_adjust_address sheet ax at delta mode b = Some b"
  by (simp add: spec_adjust_address_def)

text \<open>C12: the adjustment methods take no sheet, so an insertion of rows on one sheet
  through the workbook also moves the addresses on any other sheet held by the same name,
  at or below the insertion point, and the result differs from the specification's edit,
  which leaves addresses of other sheets alone.\<close>

theorem ws_edit_other_sheet_diverges:
  assumes "\<not> has_value (string_value d)" "i < length (address d)"
    and "sheet_name (address d ! i) \<noteq> sheet"
    and "at \<le> row_num (coordinate_start (addr_range (address d ! i)))" "0 < delta"
  shows "map abs_owner (ws_edit sheet RowAxis at delta Insert [d]) \<noteq>
         List.map_filter (spec_adjust sheet RowAxis at delta Insert) (map abs_owner [d])"
proof
  let ?f = "\<lambda>a. a\<lparr>addr_range := range_adjustment_insert_coordinate (addr_range a) 0 0 at delta\<rparr>"
  let ?h = "\<lambda>b. the (spec_adjust_address sheet RowAxis at delta Insert b)"
  let ?a = "address d ! i"
  have code: "map abs_owner (ws_edit sheet RowAxis at delta Insert [d]) = [References (map ?f (address d))]"
    using assms(1) by (simp add: ws_edit_insert_single abs_owner_insert)
  have ne: "address d \<noteq> []" using assms(2) by auto
  have spec: "List.map_filter (spec_adjust sheet RowAxis at delta Insert) (map abs_owner [d]) =
              [References (map ?h (address d))]"
    using assms(1) spec_adjust_insert_refs[OF ne, of sheet RowAxis at delta]
    by (simp add: abs_owner_def List.map_filter_simps)
  assume "map abs_owner (ws_edit sheet RowAxis at delta Insert [d]) =
          List.map_filter (spec_adjust sheet RowAxis at delta Insert) (map abs_owner [d])"
  then have "map ?f (address d) = map ?h (address d)" using code spec by simp
  then have "map ?f (address d) ! i = map ?h (address d) ! i" by (rule arg_cong)
  then have "?f ?a = ?h ?a" using assms(2) by (simp only: nth_map)
  moreover have "?h ?a = ?a" using assms(3) by (simp add: spec_adjust_address_other_sheet)
  ultimately have "row_num (coordinate_start (addr_range (?f ?a))) = row_num (coordinate_start (addr_range ?a))"
    by simp
  then show False using assms(4,5)
    by (simp add: range_adjustment_insert_coordinate_def coordinate_insert_def coord_insert_def)
qed

theorem ws_edit_other_sheet_diverges_witness:
  "\<not> has_value (string_value (set_address ''S!B5,Other!B5'' defined_name_default)) \<and>
   1 < length (address (set_address ''S!B5,Other!B5'' defined_name_default)) \<and>
   sheet_name (address (set_address ''S!B5,Other!B5'' defined_name_default) ! 1) \<noteq> ''S'' \<and>
   3 \<le> row_num (coordinate_start (addr_range (address (set_address ''S!B5,Other!B5'' defined_name_default) ! 1))) \<and>
   (0::nat) < 2 \<and>
   map abs_owner (ws_edit ''S'' RowAxis 3 2 Insert [set_address ''S!B5,Other!B5'' defined_name_default]) \<noteq>
   List.map_filter (spec_adjust ''S'' RowAxis 3 2 Insert) (map abs_owner [set_address ''S!B5,Other!B5'' defined_name_default])"
proof -
  have h1: "\<not> has_value (string_value (set_address ''S!B5,Other!B5'' defined_name_default))" by code_simp
  have h2: "1 < length (address (set_address ''S!B5,Other!B5'' defined_name_default))" by code_simp
  have h3: "sheet_name (address (set_address ''S!B5,Other!B5'' defined_name_default) ! 1) \<noteq> ''S''" by code_simp
  have h4: "3 \<le> row_num (coordinate_start (addr_range (address (set_address ''S!B5,Other!B5'' defined_name_default) ! 1)))" by code_simp
  have h5: "(0::nat) < 2" by simp
  show ?thesis using h1 h2 h3 h4 h5 ws_edit_other_sheet_diverges[OF h1 h2 h3 h4 h5] by blast
qed

end
