(* ===== verification/Writer.thy ===== *)
theory Writer
  imports DefinedName Smooth
begin

text \<open>
  The generic element writer of the specification (section 4.5), which the crate does not
  have as code: each element has its own \<open>write_to\<close>. An element to write is its name,
  its attributes in the schema's order, each with its formatted value when the typed
  value is set, and its text when the schema declares one. The writer emits a start tag
  with the set attributes only, then the escaped text and the end tag, or a self-closing
  tag when there is no text. The two element writers of the sources are this writer
  applied to their element whenever every attribute they write is set (C4); where an
  attribute is unset they write it anyway (C21, C25).
\<close>

datatype wnode = WNode string "(string \<times> string option) list" "string option"

definition present_attrs :: "(string \<times> string option) list \<Rightarrow> attrs" where
  "present_attrs as = List.map_filter (\<lambda>(k, v). map_option (Pair k) v) as"

fun spec_write :: "wnode \<Rightarrow> xml_event list" where
  "spec_write (WNode n as None) = [Empty n (present_attrs as)]"
| "spec_write (WNode n as (Some t)) = [Start n (present_attrs as), Text (escape_text t), End n]"

text \<open>A typed value as an attribute: formatted when set, absent when unset.\<close>

definition typed_attr :: "('a \<Rightarrow> string) \<Rightarrow> 'a typed_value \<Rightarrow> string option" where
  "typed_attr fmt v = (case v of Unset \<Rightarrow> None | Value x \<Rightarrow> Some (fmt x))"

text \<open>The schemas of the two elements: \<open>definedName\<close> with the attributes name and
  localSheetId and the address text, \<open>c:smooth\<close> with the attribute val and no text.\<close>

definition dn_node :: "defined_name \<Rightarrow> wnode" where
  "dn_node d =
     WNode ''definedName''
       [(''name'', typed_attr id (name d)), (''localSheetId'', typed_attr u32_to_string (local_sheet_id d))]
       (Some (get_address d))"

definition smooth_node :: "smooth \<Rightarrow> wnode" where
  "smooth_node s = WNode ''c:smooth'' [(''val'', typed_attr (\<lambda>b. if b then ''1'' else ''0'') (val s))] None"

section \<open>Lemmas\<close>

lemma present_attrs_simps [simp]:
  "present_attrs [] = []"
  "present_attrs ((k, None) # as) = present_attrs as"
  "present_attrs ((k, Some v) # as) = (k, v) # present_attrs as"
  by (simp_all add: present_attrs_def List.map_filter_simps)

lemma typed_attr_unset [simp]: "typed_attr fmt Unset = None"
  by (simp add: typed_attr_def)

section \<open>The element writers refine the generic writer\<close>

text \<open>C4: the writers of definedName and c:smooth emit exactly what the specification's
  generic writer emits for their element, whenever the attributes they always write (the
  name of the defined name, the val of c:smooth) are set; localSheetId is omitted by both
  when unset.\<close>

theorem writers_refine_spec_write:
  assumes "has_value (name d)" "has_value (val s)"
  shows "write_to d w = w @ spec_write (dn_node d) \<and> smooth_write_to s w = w @ spec_write (smooth_node s)"
proof
  have "typed_attr id (name d) = Some (get_name d)"
    using assms(1) by (cases "name d") (simp_all add: typed_attr_def get_name_def get_value_str_def)
  moreover have "typed_attr u32_to_string (local_sheet_id d) =
      (if has_value (local_sheet_id d) then Some (get_value_string_u32 (local_sheet_id d)) else None)"
    by (cases "local_sheet_id d") (simp_all add: typed_attr_def get_value_string_u32_def get_value_u32_def)
  ultimately show "write_to d w = w @ spec_write (dn_node d)"
    by (simp add: write_to_def dn_node_def write_start_tag_def write_text_node_def write_end_tag_def)
next
  have "typed_attr (\<lambda>b. if b then ''1'' else ''0'') (val s) = Some (get_value_string_bool (val s))"
    using assms(2) by (cases "val s") (simp_all add: typed_attr_def get_value_string_bool_def get_value_bool_def)
  then show "smooth_write_to s w = w @ spec_write (smooth_node s)"
    by (simp add: smooth_write_to_def smooth_node_def write_start_tag_def)
qed

theorem writers_refine_spec_write_witness:
  "has_value (name (set_name ''N'' defined_name_default)) \<and> has_value (val (smooth_set_val True smooth_default)) \<and>
   write_to (set_name ''N'' defined_name_default) [] =
     [] @ spec_write (dn_node (set_name ''N'' defined_name_default)) \<and>
   smooth_write_to (smooth_set_val True smooth_default) [] =
     [] @ spec_write (smooth_node (smooth_set_val True smooth_default))"
proof -
  have h1: "has_value (name (set_name ''N'' defined_name_default))" by (simp add: set_name_def)
  have h2: "has_value (val (smooth_set_val True smooth_default))" by (simp add: smooth_set_val_def)
  show ?thesis using h1 h2 writers_refine_spec_write[OF h1 h2, of "[]"] by blast
qed

end
