(* ===== verification/Spec2Isabelle.thy ===== *)
theory Spec2Isabelle
  imports DefinedName DefinedNameOps RefAdjust Smooth DrawingReader Binder Workbook Writer
begin

text \<open>
  \<^bold>\<open>A verification library for three source files of umya-spreadsheet.\<close>

  \<^bold>\<open>The program.\<close> The sources are \<open>src/src/structs/defined_name.rs\<close> (the named-range
  struct \<open>DefinedName\<close>: its reference text, comma splitter, structural-edit methods,
  reader and writer), \<open>src/src/structs/drawing/charts/smooth.rs\<close> (the chart element
  \<open>c:smooth\<close>) and \<open>src/src/reader/xlsx/drawing.rs\<close> (the reader of a drawing part).
  They call code that is not among the sources: the reference model (\<open>Address\<close>,
  \<open>Range\<close>, \<open>is_address\<close>), the typed attribute values (\<open>StringValue\<close>,
  \<open>UInt32Value\<close>, \<open>BooleanValue\<close>), quick_xml's event reader and writer with the crate's
  driver helpers, and the worksheet that owns defined names and drawings. Those are
  modelled from the specification and named so in the manifest. A reader pulls markup
  events; \<open>DefinedName::set_attributes\<close> reads the tag's attributes through the typed
  values, loops over events to the end tag and hands the text to \<open>set_address\<close>, which
  splits it at top-level commas and parses each token as an address or keeps it as a
  literal; \<open>write_to\<close> prints it back through \<open>get_address\<close>. Row and column edits of
  the worksheet reach the name through \<open>is_remove\<close> and the \<open>AdjustmentCoordinate\<close>
  methods.

  \<^bold>\<open>The theories.\<close>
  \<^item> \<open>Prelude\<close>: panics as values (\<open>panic + 'a\<close>: every \<open>panic!\<close> and \<open>unwrap()\<close> on
    a failure is a left value), \<open>join\<close> (\<open>Vec::join\<close>), \<open>unquote_pairs\<close>
    (\<open>str::replace(\"''\", \"'\")\<close>), decimal printing and parsing, character classes, and
    the list and string lemmas the components share.
  \<^item> \<open>TypedValue\<close>: \<open>'a typed_value\<close> (unset or set), \<open>set_from_raw\<close> with its
    recoverable \<open>AttributeParseError\<close>, the u32 as a \<open>32 word\<close> with decimal round trip.
  \<^item> \<open>Address\<close>: coordinates, ranges and addresses as records; the printer
    \<open>get_address_ptn2\<close> (sheet names quoted when they have a character outside
    \<open>[A-Za-z0-9_]\<close>, apostrophes doubled; bijective base-26 columns); the parser
    \<open>address_set_address\<close>; the recogniser \<open>is_address\<close>; the per-coordinate insert
    and remove rules; the canonical reference text (\<open>canonical_token\<close>: the grammar
    of what the printer emits, rows without leading zeros). Lemmas: printing then
    parsing is the identity on canonical addresses, the printed form is recognised,
    and every canonical token is the printed form of a canonical address (bijective
    base 26 and decimal digits are inverted exactly).
  \<^item> \<open>XmlEvents\<close>: the event stream (a list of events and read errors, \<open>Eof\<close> past its
    end), attribute lookup, the tag writers, text escaping with its round trip.
  \<^item> \<open>DefinedName\<close>: one definition per method of \<open>defined_name.rs\<close>, in its order; the
    splitter \<open>split_str\<close> as the loop body \<open>split_step\<close> over a record of the loop's
    variables, folded over the characters; \<open>set_address\<close> as a fold of
    \<open>set_address_token\<close>; the reader loop as a \<open>fun\<close> over the stream. Lemma groups:
    the splitter on printed tokens, the address text round trip (C2, C3), where
    \<open>set_address\<close> breaks the owner invariant (C6), the reader loop and the exact text
    it hands over (\<open>last_text\<close>, C7, C8), the structural edits (C9, C10), the
    splitter's state inside quoted sheet names and the empty token (C13 to C15), the
    writer and literals (C22, C23), top-level double quotes (C24) and the
    parse-then-print round trip on canonical reference text (C25).
  \<^item> \<open>DefinedNameOps\<close>: the calls on one defined name as a datatype with a step
    function, the mutable loan of the address vector included; every sequence of calls
    that avoids \<open>set_address\<close>, \<open>add_address\<close> and that loan keeps the owner
    invariant (C5), and each of the three can break it. \<open>set_attributes\<close> is not a
    call of the datatype: it reads the stream and ends in \<open>set_address\<close>, one of the
    three, and is modelled with the reader in \<open>DefinedName\<close>.
  \<^item> \<open>RefAdjust\<close>: the abstract Reference Adjuster of the specification (section 4.2) over
    an owner that is a literal or a list of references, the container's protocol
    \<open>code_edit\<close> over the defined name's methods, and the refinement theorem C16.
  \<^item> \<open>Smooth\<close>: the four methods of \<open>smooth.rs\<close>, its round trip (C17), the
    write/read result for every value, an unset one written anyway (C18), the panic on a
    missing attribute (C19).
  \<^item> \<open>DrawingReader\<close>: \<open>drawing::read\<close> with the part lookup and the event loop as a
    \<open>partial_function (option)\<close>, the worksheet drawing's reader a parameter; it returns
    whenever the callee only consumes events (C20); a read error panics (C21).
  \<^item> \<open>Binder\<close>: the specification's generic element binder (section 4.4) as a small-step
    relation over configurations with an executable run; the relation is deterministic,
    always reaches a final configuration and the run computes it. The defined name's
    reader loop refines it on flat content (C26), skips unknown subtrees as it does
    (C27), and departs from it on a nested end tag of the same name (C28). The reader loop reaches the end tag whenever the
    stream has one (C7).
  \<^item> \<open>Workbook\<close>: the worksheet's loop over all defined names under a row or column
    edit (\<open>ws_edit\<close>) and the step relation of runs of edits (\<open>ws_steps\<close>); the
    well-formedness of the names is an invariant of every run (C30, by rule induction)
    and each edit of a reachable container implements the abstract edit (C31); a name
    that also refers to another sheet is moved on that sheet too, against the
    specification (C12).
  \<^item> \<open>Writer\<close>: the specification's generic element writer (section 4.5) over a
    description of the element; both element writers are its projection whenever the
    attributes they always write are set (C4).
  \<^item> This theory: the write/read round trip of a whole \<open>definedName\<close> element (C1),
    the well-nestedness of both writers' output (C29), and a definedName read without
    its name attribute and written back with an empty one (C11).

  \<^bold>\<open>Choices.\<close> Column and row numbers are \<open>nat\<close>: the Rust \<open>u32\<close> additions of an insert
  could overflow only past 4294967295 rows, which no sheet has, so the theorems on
  edits (C9, C16, C12) hold for the source only below that bound; the
  \<open>localSheetId\<close> is a \<open>32 word\<close> because its text is parsed and printed. The
  splitter's paren counter is Rust's \<open>i32\<close>, an \<open>int\<close> here: the two agree on every
  text shorter than 2^31 characters. Characters are Isabelle's byte characters; the
  splitter and the grammar only inspect ASCII. The drawing loop has no fuel: it is a
  \<open>partial_function\<close> and its termination is a theorem under the callee's contract.
  A removed coordinate inside a kept range is marked 0, as the specification says an
  invalid coordinate is.

  \<^bold>\<open>Findings.\<close> \<open>set_address\<close> lets a literal and addresses coexist (C6) and appends
  instead of replacing (C2); an empty token between commas wipes the printed text and
  the addresses before it (C13); a double quote or a parenthesis inside a quoted sheet
  name stops the splitting (C14, C15); the reader keeps only the last text (C7) and
  panics on truncated input (C8), as the drawing reader does on a read error (C21); the
  adjustment methods ignore the sheet, so a workbook edit of one sheet moves a name's
  addresses on another (C12); \<open>c:smooth\<close> writes an unset value (C18) and panics on a
  missing one (C19); top-level double quotes of a literal are lost on reading (C24); a
  missing name attribute is neither reported nor omitted on writing (C11); the reader
  loop ends at a definedName end tag nested inside an unknown child (C28).

  \<^bold>\<open>Not modelled.\<close> Every function of the three source files is modelled; the
  lines the map leaves out are imports, braces and the \<open>impl\<close> headers. Outside the
  sources: the zip container and \<open>normalize_path\<close> (a lookup from path to stream stands
  for them: the specification says nothing of the package format), the byte-level XML
  syntax of quick_xml (a library; the model starts from events), and the worksheet
  drawing's own reader, which the drawing reader calls and which neither the sources nor
  the specification describe (a parameter under a contract here). Row-only and
  column-only ranges such as \<open>A:A\<close> are not in the specification's reference grammar and
  are not modelled; hexadecimal character references are an unescape error here. The
  binder is modelled for elements without children, the only kind the sources read.
  White-space trimming is not modelled: the drawing reader sets quick_xml's
  \<open>trim_text(true)\<close> (\<open>drawing.rs\<close>, line 21) and the event model does not trim,
  so text events stand for what the reader delivers after its own configuration. The
  reader that calls \<open>DefinedName::set_attributes\<close> is outside the sources; if it trims,
  C1 carries over to the source only for literals without leading or trailing white
  space (canonical addresses have none).
\<close>

section \<open>Reading back what the writer wrote\<close>

text \<open>
  A defined name whose state the writer can express: a set name, and either a literal
  that the splitter keeps whole and that is no address, or canonical addresses.
\<close>

definition wf_defined_name :: "defined_name \<Rightarrow> bool" where
  "wf_defined_name d \<longleftrightarrow>
     has_value (name d) \<and>
     (if has_value (string_value d)
      then address d = [] \<and> split_str (get_value_str (string_value d)) = [get_value_str (string_value d)]
           \<and> \<not> is_address (get_value_str (string_value d))
      else list_all canonical_address (address d))"

text \<open>
  The workbook reader's dispatch on a \<open>definedName\<close> start tag: a fresh struct, then
  its \<open>set_attributes\<close>.
\<close>

definition read_defined_name :: "xml_stream \<Rightarrow> (defined_name \<times> xml_stream) outcome" where
  "read_defined_name s =
     (case s of
        Ev (Start n e) # rest \<Rightarrow>
          (if n = ''definedName'' then set_attributes defined_name_default e rest
           else Inl (Panic ''expected definedName''))
      | _ \<Rightarrow> Inl (Panic ''expected definedName''))"

text \<open>C1: what write_to emits for a well-formed defined name, read back by set_attributes
  into a fresh defined name, is that defined name again, and the reader stops right after
  the element.\<close>

theorem write_to_read_roundtrip:
  assumes "wf_defined_name d"
  shows "read_defined_name (as_stream (write_to d []) @ rest) = Inr (d, rest)"
proof -
  have nmv: "name d = Value (get_name d)"
    using assms by (cases "name d") (simp_all add: wf_defined_name_def get_name_def get_value_str_def)
  have sa: "set_address (get_address d)
              (defined_name_default\<lparr>name := name d, local_sheet_id := local_sheet_id d\<rparr>) = d"
  proof (cases "has_value (string_value d)")
    case True
    then obtain L where L: "string_value d = Value L" by (cases "string_value d") auto
    with assms True show ?thesis
      by (cases d) (simp add: wf_defined_name_def get_address_def get_value_str_def set_address_literal
          set_string_value_def set_value_def defined_name_default_def)
  next
    case False
    then have "string_value d = Unset" by (cases "string_value d") auto
    with assms False show ?thesis
      by (cases d) (simp add: wf_defined_name_def set_address_get_address defined_name_default_def)
  qed
  show ?thesis
  proof (cases "local_sheet_id d")
    case Unset
    have "defined_name_default\<lparr>name := name d, local_sheet_id := Unset\<rparr> =
          defined_name_default\<lparr>name := name d\<rparr>"
      by (simp add: defined_name_default_def)
    with Unset sa nmv show ?thesis
      by (simp add: read_defined_name_def write_to_def write_start_tag_def write_text_node_def
          write_end_tag_def as_stream_def set_attributes_def get_attribute_def)
  next
    case (Value w)
    with sa nmv show ?thesis
      by (simp add: read_defined_name_def write_to_def write_start_tag_def write_text_node_def
          write_end_tag_def as_stream_def set_attributes_def get_attribute_def get_value_string_u32_def
          get_value_u32_def)
  qed
qed

theorem write_to_read_roundtrip_witness:
  "wf_defined_name
     (set_local_sheet_id 3 (set_name ''Print_Area''
        (set_address (''Sheet1!$A$1:$B$2,'' @ [apos] @ ''My Sheet'' @ [apos] @ ''!C3'') defined_name_default))) \<and>
   read_defined_name
     (as_stream (write_to (set_local_sheet_id 3 (set_name ''Print_Area''
        (set_address (''Sheet1!$A$1:$B$2,'' @ [apos] @ ''My Sheet'' @ [apos] @ ''!C3'') defined_name_default))) []) @ []) =
   Inr (set_local_sheet_id 3 (set_name ''Print_Area''
        (set_address (''Sheet1!$A$1:$B$2,'' @ [apos] @ ''My Sheet'' @ [apos] @ ''!C3'') defined_name_default)), [])"
proof -
  have h: "wf_defined_name
     (set_local_sheet_id 3 (set_name ''Print_Area''
        (set_address (''Sheet1!$A$1:$B$2,'' @ [apos] @ ''My Sheet'' @ [apos] @ ''!C3'') defined_name_default)))"
    by code_simp
  show ?thesis using h write_to_read_roundtrip[OF h] by blast
qed

section \<open>Well-formed output of the writers\<close>

text \<open>C29: the writers of both elements emit well-nested markup: appending a definedName
  element (DefinedName::write_to) or a c:smooth element (Smooth::write_to) at any point of
  a document leaves the open elements as they were, every start tag closed by its own end
  tag.\<close>

theorem writers_balanced:
  "open_tags stk (write_to d w) = open_tags stk w \<and>
   open_tags stk (smooth_write_to s w) = open_tags stk w"
  by (simp add: write_to_def Let_def write_start_tag_def write_text_node_def write_end_tag_def
      smooth_write_to_def open_tags_append split: option.splits)

section \<open>A definedName without its name attribute\<close>

text \<open>C11: every definedName element whose start tag lacks the name attribute and whose
  inner events the loop passes over is read without error, its name left unset, and the
  writer then emits it as name=\"\": a required attribute that is absent is neither reported
  (specification, section 4.4) nor omitted on writing (section 4.5), so reading and writing
  such an element adds an empty name.\<close>

theorem missing_name_written_empty:
  assumes "get_attribute e ''name'' = None" and "list_all inner_event evs"
  shows "\<exists>d. read_defined_name (Ev (Start ''definedName'' e) # map Ev evs @ Ev (End ''definedName'') # rest) =
             Inr (d, rest) \<and> \<not> has_value (name d) \<and>
             (\<exists>as. write_to d [] = [Start ''definedName'' as, Text (escape_text (get_address d)), End ''definedName''] \<and>
                   get_attribute as ''name'' = Some [])"
proof -
  define d2 where "d2 = (case get_attribute e ''localSheetId'' of
      None \<Rightarrow> defined_name_default
    | Some v \<Rightarrow> defined_name_default\<lparr>local_sheet_id :=
        set_value_string parse_u32 v (local_sheet_id defined_name_default)\<rparr>)"
  define d where "d = set_address (last_text [] evs) d2"
  have "read_defined_name (Ev (Start ''definedName'' e) # map Ev evs @ Ev (End ''definedName'') # rest) =
        set_attributes_loop [] d2 (map Ev evs @ Ev (End ''definedName'') # rest)"
    by (simp add: assms(1) read_defined_name_def set_attributes_def Let_def d2_def split: option.split)
  also have "\<dots> = Inr (d, rest)" using loop_last_text[OF assms(2)] by (simp add: d_def)
  finally have r: "read_defined_name (Ev (Start ''definedName'' e) # map Ev evs @ Ev (End ''definedName'') # rest) =
        Inr (d, rest)" .
  have "name d = Unset" by (simp add: d_def d2_def defined_name_default_def split: option.splits)
  then show ?thesis using r
    by (simp add: write_to_def write_start_tag_def write_text_node_def write_end_tag_def
        get_attribute_def get_name_def get_value_str_def)
qed

theorem missing_name_written_empty_witness:
  "get_attribute [(''hidden'', ''1'')] ''name'' = None \<and> list_all inner_event [Text ''S!A1''] \<and>
   (\<exists>d. read_defined_name (Ev (Start ''definedName'' [(''hidden'', ''1'')]) # map Ev [Text ''S!A1''] @
      Ev (End ''definedName'') # []) = Inr (d, []) \<and> \<not> has_value (name d) \<and>
      (\<exists>as. write_to d [] = [Start ''definedName'' as, Text (escape_text (get_address d)), End ''definedName''] \<and>
            get_attribute as ''name'' = Some []))"
proof -
  have h1: "get_attribute [(''hidden'', ''1'')] ''name'' = None" by (simp add: get_attribute_def)
  have h2: "list_all inner_event [Text ''S!A1'']" by code_simp
  show ?thesis using missing_name_written_empty[OF h1 h2, of "[]"] h1 h2 by blast
qed

end
